theory Spec2Isabelle
  imports Complex_Main "HOL-Library.AList" "HOL-Library.Sublist"
begin

section \<open>Data model\<close>

text \<open>
  Numbers of the program are JavaScript numbers. Layout measurements
  (\<open>getBoundingClientRect\<close>) and viewport sizes are modelled as rationals, which
  contain every finite double; \<open>scrollWidth\<close>, \<open>clientWidth\<close> and
  \<open>innerWidth\<close> are integers in the DOM and are modelled as \<open>int\<close>. The
  only arithmetic on measurements is \<open>innerWidth + 5\<close> and
  \<open>rect.right - innerWidth\<close> with an integer \<open>innerWidth\<close>; the comparisons of
  the results with 5 and 50 agree with exact arithmetic. NaN and infinities do not occur
  in layout measurements and are not modelled.
\<close>

record ViewportSize =
  width :: rat
  height :: rat
  name :: string

datatype issue_type =
  HorizontalOverflow | VerticalOverflow | HiddenContent | TouchTarget
  | TextOverflow | Overlap | Offscreen

datatype severity = Low | Medium | High

text \<open>The \<open>rect\<close> object stored in an element snapshot.\<close>

record RectInfo =
  rect_x :: rat
  rect_y :: rat
  rect_width :: rat
  rect_height :: rat

text \<open>The \<open>DOMRect\<close> returned by \<open>getBoundingClientRect\<close>, with the six fields the code reads.\<close>

record DOMRect = RectInfo +
  rect_left :: rat
  rect_right :: rat

record ElementInfo =
  info_tagName :: string
  info_className :: string
  info_id :: string
  info_rect :: RectInfo

text \<open>
  What the in-page routine reads of one element of \<open>document.querySelectorAll('body *')\<close>:
  \<open>el_className\<close> is \<open>None\<close> when \<open>el.className\<close> is not a string (SVG elements);
  \<open>el_display\<close>, \<open>el_visibility\<close> and \<open>el_overflow\<close> are the computed style;
  \<open>el_role\<close> and \<open>el_onclick\<close> are the attributes the selector
  \<open>[role="button"], [onclick]\<close> looks at.
\<close>

record Element =
  el_tagName :: string
  el_id :: string
  el_className :: "string option"
  el_rect :: DOMRect
  el_display :: string
  el_visibility :: string
  el_overflow :: string
  el_role :: "string option"
  el_onclick :: "string option"
  el_scrollWidth :: int
  el_clientWidth :: int

text \<open>The issue objects pushed inside the page (\<open>results.issues\<close>).\<close>

record RawIssue =
  raw_type :: issue_type
  raw_description :: string
  raw_selector :: string
  raw_severity :: severity
  raw_element :: ElementInfo
  raw_suggestedFix :: "string option"

record DOMIssue =
  type :: issue_type
  description :: string
  selector :: string
  viewport :: string
  viewportWidth :: rat
  severity :: severity
  element :: "ElementInfo option"
  suggestedFix :: "string option"

text \<open>The \<open>results\<close> object of the in-page routine.\<close>

record Results =
  res_hasHorizontalScroll :: bool
  res_documentWidth :: int
  res_viewportWidth :: int
  res_overflowingElements :: nat
  res_smallTouchTargets :: nat
  res_truncatedText :: nat
  res_issues :: "RawIssue list"

record Metrics =
  hasHorizontalScroll :: bool
  documentWidth :: int
  viewportWidth :: int
  overflowingElements :: nat
  smallTouchTargets :: nat
  truncatedText :: nat

record ViewportAnalysis =
  viewport :: ViewportSize
  breakpoint :: string
  issues :: "DOMIssue list"
  metrics :: Metrics

record Summary =
  totalIssues :: nat
  highSeverity :: nat
  mediumSeverity :: nat
  lowSeverity :: nat
  worstViewport :: "string option"
  commonIssues :: "issue_type list"

record AnalysisResult =
  url :: string
  timestamp :: string
  viewports :: "ViewportAnalysis list"
  summary :: Summary

text \<open>
  The state of the document that one in-page evaluation reads: the scroll width of the
  root element, \<open>window.innerWidth\<close>, the elements matched by \<open>body *\<close> in
  document order, and the three properties of \<open>document.body\<close> used for the page-level
  snapshot.
\<close>

record PageSnapshot =
  pg_scrollWidth :: int
  pg_innerWidth :: int
  pg_elements :: "Element list"
  pg_bodyClassName :: string
  pg_bodyId :: string
  pg_bodyScrollHeight :: int

section \<open>viewports.ts\<close>

definition DEFAULT_VIEWPORTS :: "ViewportSize list" where
  "DEFAULT_VIEWPORTS =
    [\<lparr>width = 320, height = 568, name = ''iPhone SE''\<rparr>,
     \<lparr>width = 375, height = 667, name = ''iPhone 8''\<rparr>,
     \<lparr>width = 390, height = 844, name = ''iPhone 14''\<rparr>,
     \<lparr>width = 480, height = 854, name = ''Mobile Large''\<rparr>,
     \<lparr>width = 640, height = 960, name = ''sm (Tailwind)''\<rparr>,
     \<lparr>width = 768, height = 1024, name = ''md (Tailwind)''\<rparr>,
     \<lparr>width = 1024, height = 768, name = ''lg (Tailwind)''\<rparr>,
     \<lparr>width = 1280, height = 800, name = ''xl (Tailwind)''\<rparr>,
     \<lparr>width = 1536, height = 864, name = ''2xl (Tailwind)''\<rparr>]"

definition getTailwindBreakpoint :: "rat \<Rightarrow> string" where
  "getTailwindBreakpoint w =
    (if w < 640 then ''default (mobile)''
     else if w < 768 then ''sm''
     else if w < 1024 then ''md''
     else if w < 1280 then ''lg''
     else if w < 1536 then ''xl''
     else ''2xl'')"

section \<open>dom-analyzer.ts: string helpers of the JavaScript runtime\<close>

definition isDigit :: "char \<Rightarrow> bool" where
  "isDigit c = (c \<in> set ''0123456789'')"

text \<open>
  Strings are lists of code units below 256. The members of the class \<open>\s\<close> of
  JavaScript regular expressions among them, which are also what
  \<open>String.prototype.trim\<close> strips: tab, line feed, vertical tab, form feed, carriage
  return, space and the no-break space U+00A0.
\<close>

definition isSpace :: "char \<Rightarrow> bool" where
  "isSpace c =
    (c \<in> set [CHR '' '', CHR 0x09, CHR 0x0A, CHR 0x0B, CHR 0x0C, CHR 0x0D, CHR 0xA0])"

text \<open>
  \<open>String.prototype.toLowerCase\<close> on one code unit below 256: the letters A to Z and
  the capital letters U+00C0 to U+00DE (U+00D7, the multiplication sign, is not one) go to
  the code unit 32 above.
\<close>

definition lowerChar :: "char \<Rightarrow> char" where
  "lowerChar c =
    (case map_of
       (zip (''ABCDEFGHIJKLMNOPQRSTUVWXYZ'' @
             [CHR 0xC0, CHR 0xC1, CHR 0xC2, CHR 0xC3, CHR 0xC4, CHR 0xC5, CHR 0xC6, CHR 0xC7,
              CHR 0xC8, CHR 0xC9, CHR 0xCA, CHR 0xCB, CHR 0xCC, CHR 0xCD, CHR 0xCE, CHR 0xCF,
              CHR 0xD0, CHR 0xD1, CHR 0xD2, CHR 0xD3, CHR 0xD4, CHR 0xD5, CHR 0xD6,
              CHR 0xD8, CHR 0xD9, CHR 0xDA, CHR 0xDB, CHR 0xDC, CHR 0xDD, CHR 0xDE])
            (''abcdefghijklmnopqrstuvwxyz'' @
             [CHR 0xE0, CHR 0xE1, CHR 0xE2, CHR 0xE3, CHR 0xE4, CHR 0xE5, CHR 0xE6, CHR 0xE7,
              CHR 0xE8, CHR 0xE9, CHR 0xEA, CHR 0xEB, CHR 0xEC, CHR 0xED, CHR 0xEE, CHR 0xEF,
              CHR 0xF0, CHR 0xF1, CHR 0xF2, CHR 0xF3, CHR 0xF4, CHR 0xF5, CHR 0xF6,
              CHR 0xF8, CHR 0xF9, CHR 0xFA, CHR 0xFB, CHR 0xFC, CHR 0xFD, CHR 0xFE])) c of
       Some d \<Rightarrow> d | None \<Rightarrow> c)"

definition toLowerCase :: "string \<Rightarrow> string" where
  "toLowerCase s = map lowerChar s"

definition trim :: "string \<Rightarrow> string" where
  "trim s = rev (dropWhile isSpace (rev (dropWhile isSpace s)))"

text \<open>\<open>s.split(/\s+/)\<close>: the pieces between maximal runs of white space.\<close>

function splitWs :: "string \<Rightarrow> string list" where
  "splitWs s =
    (let tok = takeWhile (\<lambda>c. \<not> isSpace c) s;
         rest = dropWhile (\<lambda>c. \<not> isSpace c) s
     in if rest = [] then [tok] else tok # splitWs (dropWhile isSpace rest))"
  by pat_completeness auto
termination
proof (relation "measure length", goal_cases)
  case 1
  show ?case by simp
next
  case (2 s tok rest)
  have ne: "dropWhile (\<lambda>c. \<not> isSpace c) s \<noteq> []"
    using 2 by simp
  then obtain c cs where eq: "dropWhile (\<lambda>c. \<not> isSpace c) s = c # cs"
    by (cases "dropWhile (\<lambda>c. \<not> isSpace c) s") auto
  have "isSpace c"
    using hd_dropWhile [OF ne] eq by simp
  then have "length (dropWhile isSpace (c # cs)) \<le> length cs"
    by (simp add: length_dropWhile_le)
  moreover have "length (c # cs) \<le> length s"
    using length_dropWhile_le [of "\<lambda>c. \<not> isSpace c" s] eq by simp
  ultimately show ?case
    using 2 eq by simp
qed

fun joinWith :: "string \<Rightarrow> string list \<Rightarrow> string" where
  "joinWith sep [] = []"
| "joinWith sep [t] = t"
| "joinWith sep (t # ts) = t @ sep @ joinWith sep ts"

definition digitChar :: "nat \<Rightarrow> char" where
  "digitChar n = ''0123456789'' ! n"

text \<open>
  The decimal rendering of an integer in a template literal (for magnitudes below
  \<open>10^21\<close>, where JavaScript prints every digit).
\<close>

fun showNat :: "nat \<Rightarrow> string" where
  "showNat n = (if n < 10 then [digitChar n] else showNat (n div 10) @ [digitChar (n mod 10)])"

definition showInt :: "int \<Rightarrow> string" where
  "showInt i = (if i < 0 then ''-'' @ showNat (nat (- i)) else showNat (nat i))"

text \<open>\<open>Math.round\<close>: the nearest integer, halves rounded up.\<close>

definition mathRound :: "rat \<Rightarrow> int" where
  "mathRound q = \<lfloor>q + 1 / 2\<rfloor>"

section \<open>dom-analyzer.ts: the in-page routine\<close>

definition getSelector :: "Element \<Rightarrow> string" where
  "getSelector el =
    (if el_id el \<noteq> [] then ''#'' @ el_id el
     else
       (case el_className el of
          None \<Rightarrow> toLowerCase (el_tagName el)
        | Some cn \<Rightarrow>
            if cn \<noteq> [] then
              (let classes = joinWith ''.'' (take 2 (splitWs (trim cn)))
               in if classes \<noteq> [] then toLowerCase (el_tagName el) @ ''.'' @ classes
                  else toLowerCase (el_tagName el))
            else toLowerCase (el_tagName el)))"

definition getElementInfo :: "Element \<Rightarrow> ElementInfo" where
  "getElementInfo el =
    \<lparr>info_tagName = toLowerCase (el_tagName el),
     info_className = (case el_className el of Some cn \<Rightarrow> cn | None \<Rightarrow> []),
     info_id = el_id el,
     info_rect = \<lparr>rect_x = rect_x (el_rect el), rect_y = rect_y (el_rect el),
                  rect_width = rect_width (el_rect el), rect_height = rect_height (el_rect el)\<rparr>\<rparr>"

text \<open>
  \<open>el.matches('a, button, input, select, textarea, [role="button"], [onclick]')\<close>;
  a type selector matches the lower-cased tag name.
\<close>

definition isInteractive :: "Element \<Rightarrow> bool" where
  "isInteractive el =
    (toLowerCase (el_tagName el) \<in> set [''a'', ''button'', ''input'', ''select'', ''textarea'']
     \<or> el_role el = Some ''button'' \<or> el_onclick el \<noteq> None)"

text \<open>\<open>el.matches('p, span, h1, h2, h3, h4, h5, h6, a, li, td, th, label')\<close>.\<close>

definition isTextElement :: "Element \<Rightarrow> bool" where
  "isTextElement el =
    (toLowerCase (el_tagName el) \<in>
       set [''p'', ''span'', ''h1'', ''h2'', ''h3'', ''h4'', ''h5'', ''h6'', ''a'', ''li'',
            ''td'', ''th'', ''label''])"

text \<open>The guard \<open>Skip invisible elements\<close> of the loop body.\<close>

definition isInvisible :: "Element \<Rightarrow> bool" where
  "isInvisible el =
    (el_display el = ''none'' \<or> el_visibility el = ''hidden'' \<or> rect_width (el_rect el) = 0)"

text \<open>
  The four checks of the loop body, in the order of the source; each takes the
  \<open>results\<close> object and returns it updated. The first argument is
  \<open>window.innerWidth\<close>.
\<close>

definition checkHorizontalOverflow :: "int \<Rightarrow> Element \<Rightarrow> Results \<Rightarrow> Results" where
  "checkHorizontalOverflow innerWidth el results =
    (if rect_right (el_rect el) > of_int innerWidth + 5 then
       results
         \<lparr>res_overflowingElements := res_overflowingElements results + 1,
          res_issues := res_issues results @
            [\<lparr>raw_type = HorizontalOverflow,
              raw_description = ''Element extends ''
                @ showInt (mathRound (rect_right (el_rect el) - of_int innerWidth))
                @ ''px beyond viewport'',
              raw_selector = getSelector el,
              raw_severity =
                (if rect_right (el_rect el) - of_int innerWidth > 50 then High else Medium),
              raw_element = getElementInfo el,
              raw_suggestedFix = Some ''overflow-x-hidden or max-w-full or w-full''\<rparr>]\<rparr>
     else results)"

definition checkOffscreen :: "Element \<Rightarrow> Results \<Rightarrow> Results" where
  "checkOffscreen el results =
    (if rect_left (el_rect el) < - 10 \<and> rect_right (el_rect el) > 0 then
       results
         \<lparr>res_issues := res_issues results @
            [\<lparr>raw_type = Offscreen,
              raw_description = ''Element partially off-screen to the left'',
              raw_selector = getSelector el,
              raw_severity = Medium,
              raw_element = getElementInfo el,
              raw_suggestedFix = Some ''Check margin/padding or use relative positioning''\<rparr>]\<rparr>
     else results)"

definition checkTouchTarget :: "Element \<Rightarrow> Results \<Rightarrow> Results" where
  "checkTouchTarget el results =
    (if isInteractive el \<and> (rect_width (el_rect el) < 44 \<or> rect_height (el_rect el) < 44) then
       (let counted = results\<lparr>res_smallTouchTargets := res_smallTouchTargets results + 1\<rparr>
        in if rect_width (el_rect el) < 30 \<or> rect_height (el_rect el) < 30 then
             counted
               \<lparr>res_issues := res_issues counted @
                  [\<lparr>raw_type = TouchTarget,
                    raw_description = ''Interactive element too small for touch (''
                      @ showInt (mathRound (rect_width (el_rect el))) @ ''x''
                      @ showInt (mathRound (rect_height (el_rect el)))
                      @ ''px, min 44x44px recommended)'',
                    raw_selector = getSelector el,
                    raw_severity = Medium,
                    raw_element = getElementInfo el,
                    raw_suggestedFix = Some ''min-w-[44px] min-h-[44px] or p-3''\<rparr>]\<rparr>
           else counted)
     else results)"

definition checkTextTruncation :: "Element \<Rightarrow> Results \<Rightarrow> Results" where
  "checkTextTruncation el results =
    (if el_scrollWidth el > el_clientWidth el \<and> el_overflow el \<noteq> ''visible'' then
       (if isTextElement el then
          results
            \<lparr>res_truncatedText := res_truncatedText results + 1,
             res_issues := res_issues results @
               [\<lparr>raw_type = TextOverflow,
                 raw_description = ''Text is being truncated or clipped'',
                 raw_selector = getSelector el,
                 raw_severity = Low,
                 raw_element = getElementInfo el,
                 raw_suggestedFix = Some ''break-words or text-wrap or overflow-visible''\<rparr>]\<rparr>
        else results)
     else results)"

text \<open>The body of \<open>allElements.forEach\<close>.\<close>

definition inspectElement :: "int \<Rightarrow> Results \<Rightarrow> Element \<Rightarrow> Results" where
  "inspectElement innerWidth results el =
    (if isInvisible el then results
     else checkTextTruncation el
            (checkTouchTarget el
              (checkOffscreen el
                (checkHorizontalOverflow innerWidth el results))))"

text \<open>The synthetic observation that the page-level check puts in front (\<open>unshift\<close>).\<close>

definition pageLevelIssue :: "PageSnapshot \<Rightarrow> Results \<Rightarrow> RawIssue" where
  "pageLevelIssue pg results =
    \<lparr>raw_type = HorizontalOverflow,
     raw_description = ''Page has horizontal scrollbar (document: ''
       @ showInt (res_documentWidth results) @ ''px, viewport: ''
       @ showInt (res_viewportWidth results) @ ''px)'',
     raw_selector = ''body'',
     raw_severity = High,
     raw_element =
       \<lparr>info_tagName = ''body'',
        info_className = pg_bodyClassName pg,
        info_id = pg_bodyId pg,
        info_rect = \<lparr>rect_x = 0, rect_y = 0,
                     rect_width = of_int (res_documentWidth results),
                     rect_height = of_int (pg_bodyScrollHeight pg)\<rparr>\<rparr>,
     raw_suggestedFix = Some ''Add overflow-x-hidden to body or fix overflowing children''\<rparr>"

text \<open>
  The function evaluated in the browser context: the \<open>results\<close> object as
  initialised, the scan of the elements, and the page-level check.
\<close>

definition initialResults :: "PageSnapshot \<Rightarrow> Results" where
  "initialResults pg =
    \<lparr>res_hasHorizontalScroll = pg_scrollWidth pg > pg_innerWidth pg,
     res_documentWidth = pg_scrollWidth pg,
     res_viewportWidth = pg_innerWidth pg,
     res_overflowingElements = 0,
     res_smallTouchTargets = 0,
     res_truncatedText = 0,
     res_issues = []\<rparr>"

definition inspectPage :: "PageSnapshot \<Rightarrow> Results" where
  "inspectPage pg =
    (let scanned = foldl (inspectElement (pg_innerWidth pg)) (initialResults pg) (pg_elements pg)
     in if res_hasHorizontalScroll scanned then
          scanned\<lparr>res_issues := pageLevelIssue pg scanned # res_issues scanned\<rparr>
        else scanned)"

section \<open>dom-analyzer.ts: one viewport pass and the run\<close>

text \<open>Stamping one in-page issue with the viewport (the loop after the evaluation).\<close>

definition toDOMIssue :: "ViewportSize \<Rightarrow> RawIssue \<Rightarrow> DOMIssue" where
  "toDOMIssue vp issue =
    \<lparr>type = raw_type issue,
     description = raw_description issue,
     selector = raw_selector issue,
     DOMIssue.viewport = name vp,
     DOMIssue.viewportWidth = width vp,
     severity = raw_severity issue,
     element = Some (raw_element issue),
     suggestedFix = raw_suggestedFix issue\<rparr>"

text \<open>
  \<open>analyzeViewport\<close> once the page has been resized and evaluated: \<open>pg\<close> is the
  document state that the evaluation saw.
\<close>

definition analyzeViewport :: "PageSnapshot \<Rightarrow> ViewportSize \<Rightarrow> ViewportAnalysis" where
  "analyzeViewport pg vp =
    (let analysis = inspectPage pg
     in \<lparr>viewport = vp,
         breakpoint = getTailwindBreakpoint (width vp),
         issues = map (toDOMIssue vp) (res_issues analysis),
         metrics =
           \<lparr>hasHorizontalScroll = res_hasHorizontalScroll analysis,
            documentWidth = res_documentWidth analysis,
            viewportWidth = res_viewportWidth analysis,
            overflowingElements = res_overflowingElements analysis,
            smallTouchTargets = res_smallTouchTargets analysis,
            truncatedText = res_truncatedText analysis\<rparr>\<rparr>)"

text \<open>
  How the page-level observation is told from the element-level ones: it is the
  horizontal-overflow observation whose description speaks of the page's scrollbar
  (the element-level ones say \<open>Element extends ...\<close>).
\<close>

definition isPageLevel :: "DOMIssue \<Rightarrow> bool" where
  "isPageLevel i =
    (type i = HorizontalOverflow \<and> prefix ''Page has horizontal scrollbar'' (description i))"

text \<open>
  Concrete inputs after the scenarios of the specification: an element whose right edge is
  80px past a 375px viewport, a 20 by 20 anchor, a 36 by 36 button, a page with a
  scroll width of 900px in a 375px window, and a page that does not scroll sideways.
\<close>

definition iPhone8 :: ViewportSize where
  "iPhone8 = \<lparr>width = 375, height = 667, name = ''iPhone 8''\<rparr>"

definition overflowingDiv :: Element where
  "overflowingDiv =
    \<lparr>el_tagName = ''DIV'', el_id = [], el_className = Some ''card wide'',
     el_rect = \<lparr>rect_x = 0, rect_y = 0, rect_width = 455, rect_height = 120,
                 rect_left = 0, rect_right = 455\<rparr>,
     el_display = ''block'', el_visibility = ''visible'', el_overflow = ''visible'',
     el_role = None, el_onclick = None, el_scrollWidth = 455, el_clientWidth = 455\<rparr>"

definition smallAnchor :: Element where
  "smallAnchor =
    \<lparr>el_tagName = ''A'', el_id = ''more'', el_className = Some [],
     el_rect = \<lparr>rect_x = 10, rect_y = 200, rect_width = 20, rect_height = 20,
                 rect_left = 10, rect_right = 30\<rparr>,
     el_display = ''inline-block'', el_visibility = ''visible'', el_overflow = ''visible'',
     el_role = None, el_onclick = None, el_scrollWidth = 20, el_clientWidth = 20\<rparr>"

definition borderlineButton :: Element where
  "borderlineButton =
    \<lparr>el_tagName = ''BUTTON'', el_id = [], el_className = Some [],
     el_rect = \<lparr>rect_x = 10, rect_y = 300, rect_width = 36, rect_height = 36,
                 rect_left = 10, rect_right = 46\<rparr>,
     el_display = ''inline-block'', el_visibility = ''visible'', el_overflow = ''visible'',
     el_role = None, el_onclick = None, el_scrollWidth = 36, el_clientWidth = 36\<rparr>"

definition scrollingPage :: PageSnapshot where
  "scrollingPage =
    \<lparr>pg_scrollWidth = 900, pg_innerWidth = 375,
     pg_elements = [overflowingDiv, smallAnchor, borderlineButton],
     pg_bodyClassName = [], pg_bodyId = [], pg_bodyScrollHeight = 2000\<rparr>"

definition fittingPage :: PageSnapshot where
  "fittingPage =
    \<lparr>pg_scrollWidth = 375, pg_innerWidth = 375,
     pg_elements = [smallAnchor, borderlineButton],
     pg_bodyClassName = [], pg_bodyId = [], pg_bodyScrollHeight = 2000\<rparr>"

datatype error = Error string

text \<open>
  The browser page as the run sees it. \<open>page_goto\<close> is the outcome of the navigation
  (\<open>Some e\<close> when it throws); \<open>page_pass i vp\<close> is the outcome of the \<open>i\<close>-th viewport
  pass (resize, settle delay, evaluation): the error thrown, or the document state
  that the in-page routine reads; \<open>page_close\<close> is the outcome of closing the page.
\<close>

record Page =
  page_goto :: "string \<Rightarrow> error option"
  page_pass :: "nat \<Rightarrow> ViewportSize \<Rightarrow> error + PageSnapshot"
  page_close :: "error option"

text \<open>The loop over the viewports; a pass that throws ends the loop with its error.\<close>

fun analyzeViewports ::
  "(nat \<Rightarrow> ViewportSize \<Rightarrow> error + PageSnapshot) \<Rightarrow> ViewportAnalysis list
    \<Rightarrow> ViewportSize list \<Rightarrow> error + ViewportAnalysis list" where
  "analyzeViewports pass viewportResults [] = Inr viewportResults"
| "analyzeViewports pass viewportResults (vp # vps) =
    (case pass (length viewportResults) vp of
       Inl e \<Rightarrow> Inl e
     | Inr pg \<Rightarrow> analyzeViewports pass (viewportResults @ [analyzeViewport pg vp]) vps)"

text \<open>\<open>Find worst viewport\<close>: the loop state is \<open>(worstViewport, maxIssues)\<close>.\<close>

definition worstStep :: "string option \<times> nat \<Rightarrow> ViewportAnalysis \<Rightarrow> string option \<times> nat" where
  "worstStep st vp =
    (if length (issues vp) > snd st then (Some (name (ViewportAnalysis.viewport vp)), length (issues vp))
     else st)"

definition findWorstViewport :: "ViewportAnalysis list \<Rightarrow> string option" where
  "findWorstViewport viewportResults = fst (foldl worstStep (None, 0) viewportResults)"

text \<open>
  \<open>Find common issue types\<close>. The \<open>Map\<close> keeps its keys in insertion order and
  \<open>set\<close> on a present key keeps the key's place, which is \<^const>\<open>AList.update\<close>.
\<close>

definition countStep :: "(issue_type \<times> nat) list \<Rightarrow> DOMIssue \<Rightarrow> (issue_type \<times> nat) list" where
  "countStep issueTypeCounts issue =
    AList.update (type issue)
      ((case map_of issueTypeCounts (type issue) of None \<Rightarrow> 0 | Some c \<Rightarrow> c) + 1)
      issueTypeCounts"

definition issueTypeCounts :: "DOMIssue list \<Rightarrow> (issue_type \<times> nat) list" where
  "issueTypeCounts allIssues = foldl countStep [] allIssues"

text \<open>
  \<open>[...entries].sort((a, b) => b[1] - a[1]).slice(0, 3).map(([type]) => type)\<close>.
  \<open>Array.prototype.sort\<close> is a stable sort (ECMAScript 2019); the comparator orders by
  descending count, which is ascending order of the negated count.
\<close>

definition findCommonIssues :: "DOMIssue list \<Rightarrow> issue_type list" where
  "findCommonIssues allIssues =
    map fst (take 3 (sort_key (\<lambda>e. - int (snd e)) (issueTypeCounts allIssues)))"

definition summarize :: "ViewportAnalysis list \<Rightarrow> Summary" where
  "summarize viewportResults =
    (let allIssues = concat (map issues viewportResults)
     in \<lparr>totalIssues = length allIssues,
         highSeverity = length (filter (\<lambda>i. severity i = High) allIssues),
         mediumSeverity = length (filter (\<lambda>i. severity i = Medium) allIssues),
         lowSeverity = length (filter (\<lambda>i. severity i = Low) allIssues),
         worstViewport = findWorstViewport viewportResults,
         commonIssues = findCommonIssues allIssues\<rparr>)"

text \<open>
  \<open>analyzeResponsiveDesign\<close>. The first argument is the outcome of acquiring the
  browser and opening a page (outside the \<open>try\<close>), the second the clock reading for the
  time stamp. The \<open>finally\<close> block closes the page on every path, and an error thrown
  there replaces the outcome of the \<open>try\<close> block.
\<close>

definition analyzeResponsiveDesign ::
  "error + Page \<Rightarrow> string \<Rightarrow> string \<Rightarrow> ViewportSize list \<Rightarrow> error + AnalysisResult" where
  "analyzeResponsiveDesign newPage now u vps =
    (case newPage of
       Inl e \<Rightarrow> Inl e
     | Inr page \<Rightarrow>
         (let tried =
                (case page_goto page u of
                   Some e \<Rightarrow> Inl e
                 | None \<Rightarrow>
                     (case analyzeViewports (page_pass page) [] vps of
                        Inl e \<Rightarrow> Inl e
                      | Inr viewportResults \<Rightarrow>
                          Inr \<lparr>url = u, timestamp = now, viewports = viewportResults,
                               summary = summarize viewportResults\<rparr>))
          in case page_close page of Some e \<Rightarrow> Inl e | None \<Rightarrow> tried))"

section \<open>index.ts: deduplication of the issues in the report\<close>

record IssueEntry =
  entry_type :: issue_type
  entry_selector :: string
  entry_severity :: severity
  entry_description :: string
  entry_suggestedFix :: "string option"
  entry_viewports :: "string list"

text \<open>The string value of an issue type.\<close>

fun typeName :: "issue_type \<Rightarrow> string" where
  "typeName HorizontalOverflow = ''horizontal-overflow''"
| "typeName VerticalOverflow = ''vertical-overflow''"
| "typeName HiddenContent = ''hidden-content''"
| "typeName TouchTarget = ''touch-target''"
| "typeName TextOverflow = ''text-overflow''"
| "typeName Overlap = ''overlap''"
| "typeName Offscreen = ''offscreen''"

definition issueKey :: "DOMIssue \<Rightarrow> string" where
  "issueKey issue = typeName (type issue) @ ''|'' @ selector issue"

text \<open>
  \<open>description.replace(/\d+px/g, 'Npx')\<close>. At a digit, the greedy \<open>\d+\<close> takes the whole
  run of digits; the match succeeds when \<open>px\<close> follows the run (giving up digits cannot
  help, since the next character is then a digit) and the scan goes on after the match;
  otherwise the character is kept and the scan goes on at the next one.
\<close>

function normalizePx :: "string \<Rightarrow> string" where
  "normalizePx [] = []"
| "normalizePx (c # cs) =
    (if isDigit c \<and> take 2 (dropWhile isDigit cs) = ''px''
     then ''Npx'' @ normalizePx (drop 2 (dropWhile isDigit cs))
     else c # normalizePx cs)"
  by pat_completeness auto
termination
proof (relation "measure length", goal_cases)
  case 1
  show ?case by simp
next
  case (2 c cs)
  show ?case
    using length_dropWhile_le [of isDigit cs] by simp
next
  case (3 c cs)
  show ?case by simp
qed

text \<open>
  The body of the inner loop: \<open>vpName\<close> is \<open>vp.viewport.name\<close>. \<open>issueMap\<close> is a
  \<open>Map\<close> in insertion order; its entries are objects, so pushing to
  \<open>entry.viewports\<close> changes the entry stored under the key.
\<close>

definition recordIssue ::
  "string \<Rightarrow> (string \<times> IssueEntry) list \<Rightarrow> DOMIssue \<Rightarrow> (string \<times> IssueEntry) list" where
  "recordIssue vpName issueMap issue =
    (let key = issueKey issue;
         issueMap1 =
           (if map_of issueMap key = None then
              AList.update key
                \<lparr>entry_type = type issue,
                 entry_selector = selector issue,
                 entry_severity = severity issue,
                 entry_description = normalizePx (description issue),
                 entry_suggestedFix = suggestedFix issue,
                 entry_viewports = []\<rparr> issueMap
            else issueMap)
     in case map_of issueMap1 key of
          None \<Rightarrow> issueMap1
        | Some entry \<Rightarrow>
            if vpName \<notin> set (entry_viewports entry) then
              AList.update key
                (entry\<lparr>entry_viewports := entry_viewports entry @ [vpName]\<rparr>) issueMap1
            else issueMap1)"

text \<open>
  The two nested loops of the \<open>test_responsive\<close> handler over \<open>result.viewports\<close>.
  The handler reaches them when \<open>summary.totalIssues\<close> is not zero; with no issue at
  all it returns before, and the loops would leave the map empty.
\<close>

definition buildIssueMap :: "ViewportAnalysis list \<Rightarrow> (string \<times> IssueEntry) list" where
  "buildIssueMap vps =
    foldl (\<lambda>issueMap vp. foldl (recordIssue (name (ViewportAnalysis.viewport vp))) issueMap (issues vp))
      [] vps"

section \<open>Notions used to state the properties\<close>

text \<open>
  The flattened issue sequence of a run in iteration order (viewports in order, then the
  issues of each viewport), each issue with the name of the viewport that lists it.
\<close>

definition occurrences :: "ViewportAnalysis list \<Rightarrow> (string \<times> DOMIssue) list" where
  "occurrences vps =
    concat (map (\<lambda>vp. map (\<lambda>issue. (name (ViewportAnalysis.viewport vp), issue)) (issues vp)) vps)"

text \<open>The members of a list in order of first appearance, each once.\<close>

fun firstSeen :: "'a list \<Rightarrow> 'a list" where
  "firstSeen [] = []"
| "firstSeen (x # xs) = x # filter (\<lambda>y. y \<noteq> x) (firstSeen xs)"

text \<open>The position at which a value is first seen in a list (the length, if it is not in it).\<close>

definition firstIndex :: "'a list \<Rightarrow> 'a \<Rightarrow> nat" where
  "firstIndex xs x = length (takeWhile (\<lambda>y. y \<noteq> x) xs)"

text \<open>
  A numeric pixel literal occurs in a text: some digit is directly followed by \<open>px\<close>
  (the last digit of a run of digits that \<open>px\<close> follows).
\<close>

fun hasPxLiteral :: "string \<Rightarrow> bool" where
  "hasPxLiteral [] = False"
| "hasPxLiteral (c # cs) = ((isDigit c \<and> take 2 cs = ''px'') \<or> hasPxLiteral cs)"

text \<open>
  A reading of a text as kept text and numeric pixel literals: a first piece of kept text,
  then literals, each given by its digits and followed by a piece of kept text. The text
  that is read puts \<open>px\<close> after the digits of each literal; the normalized text puts
  the placeholder \<open>Npx\<close> in the place of each literal and keeps the rest. A reading is
  proper when the digits of every literal are a non-empty run of digits, no kept piece
  holds a pixel literal, and no kept piece before a literal ends with a digit (the
  literal takes the whole run of digits).
\<close>

fun original :: "string \<Rightarrow> (string \<times> string) list \<Rightarrow> string" where
  "original t [] = t"
| "original t ((d, t') # ps) = t @ d @ ''px'' @ original t' ps"

fun replaced :: "string \<Rightarrow> (string \<times> string) list \<Rightarrow> string" where
  "replaced t [] = t"
| "replaced t ((d, t') # ps) = t @ ''Npx'' @ replaced t' ps"

fun properReading :: "string \<Rightarrow> (string \<times> string) list \<Rightarrow> bool" where
  "properReading t [] = (\<not> hasPxLiteral t)"
| "properReading t ((d, t') # ps) =
    (\<not> hasPxLiteral t \<and> (t = [] \<or> \<not> isDigit (last t))
     \<and> d \<noteq> [] \<and> list_all isDigit d \<and> properReading t' ps)"

text \<open>
  The deduplicated issue that the specification describes for a key, given the
  occurrences in iteration order: none if the key does not occur; otherwise the issue
  seeded from the first occurrence with that key, its description normalized, and with the
  names of the viewports of all occurrences with that key, in order of first appearance
  and without duplicates.
\<close>

definition mergedEntry :: "(string \<times> DOMIssue) list \<Rightarrow> string \<Rightarrow> IssueEntry option" where
  "mergedEntry occs key =
    (case List.find (\<lambda>p. issueKey (snd p) = key) occs of
       None \<Rightarrow> None
     | Some p \<Rightarrow>
         Some \<lparr>entry_type = type (snd p),
               entry_selector = selector (snd p),
               entry_severity = severity (snd p),
               entry_description = normalizePx (description (snd p)),
               entry_suggestedFix = suggestedFix (snd p),
               entry_viewports =
                 firstSeen (map fst (filter (\<lambda>p. issueKey (snd p) = key) occs))\<rparr>)"

section \<open>Sample runs\<close>

text \<open>
  A page whose document is 400px wide at least and holds the small anchor, a page that
  fits every viewport, and the runs over four viewports of the catalog: one that
  succeeds on the wide page, one on the fitting page, and one whose third pass throws.
\<close>

definition sampleViewports :: "ViewportSize list" where
  "sampleViewports =
    [\<lparr>width = 320, height = 568, name = ''iPhone SE''\<rparr>,
     \<lparr>width = 375, height = 667, name = ''iPhone 8''\<rparr>,
     \<lparr>width = 390, height = 844, name = ''iPhone 14''\<rparr>,
     \<lparr>width = 1024, height = 768, name = ''lg (Tailwind)''\<rparr>]"

definition widePage :: "ViewportSize \<Rightarrow> PageSnapshot" where
  "widePage vp =
    \<lparr>pg_scrollWidth = max 400 \<lfloor>width vp\<rfloor>, pg_innerWidth = \<lfloor>width vp\<rfloor>,
     pg_elements = [smallAnchor],
     pg_bodyClassName = [], pg_bodyId = [], pg_bodyScrollHeight = 2000\<rparr>"

definition narrowPage :: "ViewportSize \<Rightarrow> PageSnapshot" where
  "narrowPage vp =
    \<lparr>pg_scrollWidth = \<lfloor>width vp\<rfloor>, pg_innerWidth = \<lfloor>width vp\<rfloor>,
     pg_elements = [borderlineButton],
     pg_bodyClassName = [], pg_bodyId = [], pg_bodyScrollHeight = 2000\<rparr>"

definition steadyPage :: Page where
  "steadyPage =
    \<lparr>page_goto = (\<lambda>u. None), page_pass = (\<lambda>i vp. Inr (widePage vp)), page_close = None\<rparr>"

definition quietPage :: Page where
  "quietPage =
    \<lparr>page_goto = (\<lambda>u. None), page_pass = (\<lambda>i vp. Inr (narrowPage vp)), page_close = None\<rparr>"

definition flakyPage :: Page where
  "flakyPage =
    \<lparr>page_goto = (\<lambda>u. None),
     page_pass = (\<lambda>i vp. if i = 2 then Inl (Error ''Execution context was destroyed'')
                          else Inr (widePage vp)),
     page_close = None\<rparr>"

definition sampleResults :: "ViewportAnalysis list" where
  "sampleResults = map (\<lambda>vp. analyzeViewport (widePage vp) vp) sampleViewports"

definition sampleRun :: AnalysisResult where
  "sampleRun =
    \<lparr>url = ''http://localhost:3000'', timestamp = ''2025-01-01T00:00:00.000Z'',
     viewports = sampleResults, summary = summarize sampleResults\<rparr>"

definition quietResults :: "ViewportAnalysis list" where
  "quietResults = map (\<lambda>vp. analyzeViewport (narrowPage vp) vp) sampleViewports"

definition quietRun :: AnalysisResult where
  "quietRun =
    \<lparr>url = ''http://localhost:3000'', timestamp = ''2025-01-01T00:00:00.000Z'',
     viewports = quietResults, summary = summarize quietResults\<rparr>"

section \<open>The checks of one element and the scan of a page\<close>

text \<open>
  Each check appends its observations to \<open>results.issues\<close> and leaves the rest of the
  list alone; the lemmas name the appended part and what it holds.
\<close>

lemma checkHorizontalOverflow_emits:
  "\<exists>new. res_issues (checkHorizontalOverflow w el r) = res_issues r @ new
     \<and> res_overflowingElements (checkHorizontalOverflow w el r) = res_overflowingElements r + length new
     \<and> (\<forall>i\<in>set new. raw_type i = HorizontalOverflow \<and> \<not> prefix ''Page has horizontal scrollbar'' (raw_description i))
     \<and> map raw_severity new =
          (if rect_right (el_rect el) > of_int w + 5
           then [if rect_right (el_rect el) - of_int w > 50 then High else Medium] else [])"
  by (simp add: checkHorizontalOverflow_def)

lemma checkHorizontalOverflow_keeps:
  "res_smallTouchTargets (checkHorizontalOverflow w el r) = res_smallTouchTargets r"
  "res_truncatedText (checkHorizontalOverflow w el r) = res_truncatedText r"
  "res_hasHorizontalScroll (checkHorizontalOverflow w el r) = res_hasHorizontalScroll r"
  "res_documentWidth (checkHorizontalOverflow w el r) = res_documentWidth r"
  "res_viewportWidth (checkHorizontalOverflow w el r) = res_viewportWidth r"
  by (simp_all add: checkHorizontalOverflow_def)

lemma checkOffscreen_emits:
  "\<exists>new. res_issues (checkOffscreen el r) = res_issues r @ new
     \<and> (\<forall>i\<in>set new. raw_type i = Offscreen \<and> \<not> prefix ''Page has horizontal scrollbar'' (raw_description i))"
  by (simp add: checkOffscreen_def)

lemma checkOffscreen_keeps:
  "res_overflowingElements (checkOffscreen el r) = res_overflowingElements r"
  "res_smallTouchTargets (checkOffscreen el r) = res_smallTouchTargets r"
  "res_truncatedText (checkOffscreen el r) = res_truncatedText r"
  "res_hasHorizontalScroll (checkOffscreen el r) = res_hasHorizontalScroll r"
  "res_documentWidth (checkOffscreen el r) = res_documentWidth r"
  "res_viewportWidth (checkOffscreen el r) = res_viewportWidth r"
  by (simp_all add: checkOffscreen_def)

lemma checkTouchTarget_emits:
  "\<exists>new. res_issues (checkTouchTarget el r) = res_issues r @ new
     \<and> (\<forall>i\<in>set new. raw_type i = TouchTarget \<and> \<not> prefix ''Page has horizontal scrollbar'' (raw_description i))
     \<and> map raw_severity new =
          (if isInteractive el \<and> (rect_width (el_rect el) < 30 \<or> rect_height (el_rect el) < 30)
           then [Medium] else [])"
  by (auto simp add: checkTouchTarget_def Let_def)

lemma checkTouchTarget_count:
  "res_smallTouchTargets (checkTouchTarget el r) = res_smallTouchTargets r +
     (if isInteractive el \<and> (rect_width (el_rect el) < 44 \<or> rect_height (el_rect el) < 44)
      then 1 else 0)"
  by (simp add: checkTouchTarget_def Let_def)

lemma checkTouchTarget_keeps:
  "res_overflowingElements (checkTouchTarget el r) = res_overflowingElements r"
  "res_truncatedText (checkTouchTarget el r) = res_truncatedText r"
  "res_hasHorizontalScroll (checkTouchTarget el r) = res_hasHorizontalScroll r"
  "res_documentWidth (checkTouchTarget el r) = res_documentWidth r"
  "res_viewportWidth (checkTouchTarget el r) = res_viewportWidth r"
  by (simp_all add: checkTouchTarget_def Let_def)

lemma checkTextTruncation_emits:
  "\<exists>new. res_issues (checkTextTruncation el r) = res_issues r @ new
     \<and> res_truncatedText (checkTextTruncation el r) = res_truncatedText r + length new
     \<and> (\<forall>i\<in>set new. raw_type i = TextOverflow \<and> \<not> prefix ''Page has horizontal scrollbar'' (raw_description i))"
  by (simp add: checkTextTruncation_def)

lemma checkTextTruncation_keeps:
  "res_overflowingElements (checkTextTruncation el r) = res_overflowingElements r"
  "res_smallTouchTargets (checkTextTruncation el r) = res_smallTouchTargets r"
  "res_hasHorizontalScroll (checkTextTruncation el r) = res_hasHorizontalScroll r"
  "res_documentWidth (checkTextTruncation el r) = res_documentWidth r"
  "res_viewportWidth (checkTextTruncation el r) = res_viewportWidth r"
  by (simp_all add: checkTextTruncation_def)

lemma filter_none: "(\<forall>i\<in>set xs. \<not> P i) \<Longrightarrow> filter P xs = []"
  by (simp add: filter_empty_conv)

lemma inspectElement_invisible: "isInvisible el \<Longrightarrow> inspectElement w r el = r"
  by (simp add: inspectElement_def)

lemma inspectElement_visible:
  assumes "\<not> isInvisible el"
  shows "\<exists>ho off tt tx.
     res_issues (inspectElement w r el) = res_issues r @ ho @ off @ tt @ tx
     \<and> (\<forall>i\<in>set ho. raw_type i = HorizontalOverflow \<and> \<not> prefix ''Page has horizontal scrollbar'' (raw_description i))
     \<and> (\<forall>i\<in>set off. raw_type i = Offscreen \<and> \<not> prefix ''Page has horizontal scrollbar'' (raw_description i))
     \<and> (\<forall>i\<in>set tt. raw_type i = TouchTarget \<and> \<not> prefix ''Page has horizontal scrollbar'' (raw_description i))
     \<and> (\<forall>i\<in>set tx. raw_type i = TextOverflow \<and> \<not> prefix ''Page has horizontal scrollbar'' (raw_description i))
     \<and> map raw_severity ho =
          (if rect_right (el_rect el) > of_int w + 5
           then [if rect_right (el_rect el) - of_int w > 50 then High else Medium] else [])
     \<and> map raw_severity tt =
          (if isInteractive el \<and> (rect_width (el_rect el) < 30 \<or> rect_height (el_rect el) < 30)
           then [Medium] else [])
     \<and> res_overflowingElements (inspectElement w r el) = res_overflowingElements r + length ho
     \<and> res_truncatedText (inspectElement w r el) = res_truncatedText r + length tx
     \<and> res_smallTouchTargets (inspectElement w r el) = res_smallTouchTargets r +
          (if isInteractive el \<and> (rect_width (el_rect el) < 44 \<or> rect_height (el_rect el) < 44)
           then 1 else 0)"
proof -
  define r1 where "r1 = checkHorizontalOverflow w el r"
  define r2 where "r2 = checkOffscreen el r1"
  define r3 where "r3 = checkTouchTarget el r2"
  define r4 where "r4 = checkTextTruncation el r3"
  have res: "inspectElement w r el = r4"
    using assms by (simp add: inspectElement_def r1_def r2_def r3_def r4_def)
  obtain ho where ho: "res_issues r1 = res_issues r @ ho"
      "res_overflowingElements r1 = res_overflowingElements r + length ho"
      "\<forall>i\<in>set ho. raw_type i = HorizontalOverflow \<and> \<not> prefix ''Page has horizontal scrollbar'' (raw_description i)"
      "map raw_severity ho =
          (if rect_right (el_rect el) > of_int w + 5
           then [if rect_right (el_rect el) - of_int w > 50 then High else Medium] else [])"
    unfolding r1_def using checkHorizontalOverflow_emits [of w el r] by blast
  obtain off where off: "res_issues r2 = res_issues r1 @ off" "\<forall>i\<in>set off. raw_type i = Offscreen \<and> \<not> prefix ''Page has horizontal scrollbar'' (raw_description i)"
    unfolding r2_def using checkOffscreen_emits [of el r1] by blast
  obtain tt where tt: "res_issues r3 = res_issues r2 @ tt" "\<forall>i\<in>set tt. raw_type i = TouchTarget \<and> \<not> prefix ''Page has horizontal scrollbar'' (raw_description i)"
      "map raw_severity tt =
          (if isInteractive el \<and> (rect_width (el_rect el) < 30 \<or> rect_height (el_rect el) < 30)
           then [Medium] else [])"
    unfolding r3_def using checkTouchTarget_emits [of el r2] by blast
  obtain tx where tx: "res_issues r4 = res_issues r3 @ tx"
      "res_truncatedText r4 = res_truncatedText r3 + length tx"
      "\<forall>i\<in>set tx. raw_type i = TextOverflow \<and> \<not> prefix ''Page has horizontal scrollbar'' (raw_description i)"
    unfolding r4_def using checkTextTruncation_emits [of el r3] by blast
  have issues: "res_issues r4 = res_issues r @ ho @ off @ tt @ tx"
    by (simp add: tx(1) tt(1) off(1) ho(1))
  have over: "res_overflowingElements r4 = res_overflowingElements r + length ho"
    by (simp add: r4_def r3_def r2_def checkTextTruncation_keeps checkTouchTarget_keeps
        checkOffscreen_keeps ho(2))
  have trunc: "res_truncatedText r4 = res_truncatedText r + length tx"
    by (simp add: tx(2) r3_def r2_def r1_def checkTouchTarget_keeps checkOffscreen_keeps
        checkHorizontalOverflow_keeps)
  have small: "res_smallTouchTargets r4 = res_smallTouchTargets r +
          (if isInteractive el \<and> (rect_width (el_rect el) < 44 \<or> rect_height (el_rect el) < 44)
           then 1 else 0)"
    by (simp add: r4_def r3_def r2_def r1_def checkTextTruncation_keeps checkTouchTarget_count
        checkOffscreen_keeps checkHorizontalOverflow_keeps)
  show ?thesis
    unfolding res using issues over trunc small ho(3,4) off(2) tt(2,3) tx(3) by blast
qed

lemma inspectElement_keeps:
  "res_hasHorizontalScroll (inspectElement w r el) = res_hasHorizontalScroll r"
  "res_documentWidth (inspectElement w r el) = res_documentWidth r"
  "res_viewportWidth (inspectElement w r el) = res_viewportWidth r"
  by (simp_all add: inspectElement_def checkTextTruncation_keeps checkTouchTarget_keeps
        checkOffscreen_keeps checkHorizontalOverflow_keeps)

lemma inspectElement_step:
  "\<exists>new. res_issues (inspectElement w r el) = res_issues r @ new
     \<and> (\<forall>i\<in>set new. \<not> prefix ''Page has horizontal scrollbar'' (raw_description i))
     \<and> res_overflowingElements (inspectElement w r el) =
         res_overflowingElements r + length (filter (\<lambda>i. raw_type i = HorizontalOverflow) new)
     \<and> res_truncatedText (inspectElement w r el) =
         res_truncatedText r + length (filter (\<lambda>i. raw_type i = TextOverflow) new)
     \<and> res_smallTouchTargets r + length (filter (\<lambda>i. raw_type i = TouchTarget) new)
         \<le> res_smallTouchTargets (inspectElement w r el)"
proof (cases "isInvisible el")
  case True
  then show ?thesis
    by (simp add: inspectElement_invisible)
next
  case False
  from inspectElement_visible [OF False, of w r]
  obtain ho off tt tx where *:
     "res_issues (inspectElement w r el) = res_issues r @ ho @ off @ tt @ tx"
     "\<forall>i\<in>set ho. raw_type i = HorizontalOverflow \<and> \<not> prefix ''Page has horizontal scrollbar'' (raw_description i)"
     "\<forall>i\<in>set off. raw_type i = Offscreen \<and> \<not> prefix ''Page has horizontal scrollbar'' (raw_description i)"
     "\<forall>i\<in>set tt. raw_type i = TouchTarget \<and> \<not> prefix ''Page has horizontal scrollbar'' (raw_description i)"
     "\<forall>i\<in>set tx. raw_type i = TextOverflow \<and> \<not> prefix ''Page has horizontal scrollbar'' (raw_description i)"
     "map raw_severity tt =
          (if isInteractive el \<and> (rect_width (el_rect el) < 30 \<or> rect_height (el_rect el) < 30)
           then [Medium] else [])"
     "res_overflowingElements (inspectElement w r el) = res_overflowingElements r + length ho"
     "res_truncatedText (inspectElement w r el) = res_truncatedText r + length tx"
     "res_smallTouchTargets (inspectElement w r el) = res_smallTouchTargets r +
          (if isInteractive el \<and> (rect_width (el_rect el) < 44 \<or> rect_height (el_rect el) < 44)
           then 1 else 0)"
    by blast
  let ?new = "ho @ off @ tt @ tx"
  have f1: "filter (\<lambda>i. raw_type i = HorizontalOverflow) ?new = ho"
    using *(2-5) by (simp add: filter_none)
  have f2: "filter (\<lambda>i. raw_type i = TextOverflow) ?new = tx"
    using *(2-5) by (simp add: filter_none)
  have f3: "filter (\<lambda>i. raw_type i = TouchTarget) ?new = tt"
    using *(2-5) by (simp add: filter_none)
  have "length (map raw_severity tt) =
      (if isInteractive el \<and> (rect_width (el_rect el) < 30 \<or> rect_height (el_rect el) < 30)
       then 1 else 0)"
    unfolding *(6) by simp
  then have len: "length tt \<le>
      (if isInteractive el \<and> (rect_width (el_rect el) < 44 \<or> rect_height (el_rect el) < 44)
       then 1 else 0)"
    by (auto split: if_splits)
  have np: "\<forall>i\<in>set ?new. \<not> prefix ''Page has horizontal scrollbar'' (raw_description i)"
    using *(2-5) by auto
  show ?thesis
    apply (rule exI [of _ ?new])
    unfolding f1 f2 f3
    using *(1,7,8,9) len np by simp
qed

lemma scan_elements:
  "\<exists>new. res_issues (foldl (inspectElement w) r els) = res_issues r @ new
     \<and> (\<forall>i\<in>set new. \<not> prefix ''Page has horizontal scrollbar'' (raw_description i))
     \<and> res_overflowingElements (foldl (inspectElement w) r els) =
         res_overflowingElements r + length (filter (\<lambda>i. raw_type i = HorizontalOverflow) new)
     \<and> res_truncatedText (foldl (inspectElement w) r els) =
         res_truncatedText r + length (filter (\<lambda>i. raw_type i = TextOverflow) new)
     \<and> res_smallTouchTargets r + length (filter (\<lambda>i. raw_type i = TouchTarget) new)
         \<le> res_smallTouchTargets (foldl (inspectElement w) r els)"
proof (induction els arbitrary: r)
  case Nil
  show ?case by simp
next
  case (Cons el els)
  obtain n1 where n1:
    "res_issues (inspectElement w r el) = res_issues r @ n1"
    "\<forall>i\<in>set n1. \<not> prefix ''Page has horizontal scrollbar'' (raw_description i)"
    "res_overflowingElements (inspectElement w r el) =
         res_overflowingElements r + length (filter (\<lambda>i. raw_type i = HorizontalOverflow) n1)"
    "res_truncatedText (inspectElement w r el) =
         res_truncatedText r + length (filter (\<lambda>i. raw_type i = TextOverflow) n1)"
    "res_smallTouchTargets r + length (filter (\<lambda>i. raw_type i = TouchTarget) n1)
         \<le> res_smallTouchTargets (inspectElement w r el)"
    using inspectElement_step [of w r el] by blast
  let ?r = "inspectElement w r el"
  obtain n2 where n2:
    "res_issues (foldl (inspectElement w) ?r els) = res_issues ?r @ n2"
    "\<forall>i\<in>set n2. \<not> prefix ''Page has horizontal scrollbar'' (raw_description i)"
    "res_overflowingElements (foldl (inspectElement w) ?r els) =
         res_overflowingElements ?r + length (filter (\<lambda>i. raw_type i = HorizontalOverflow) n2)"
    "res_truncatedText (foldl (inspectElement w) ?r els) =
         res_truncatedText ?r + length (filter (\<lambda>i. raw_type i = TextOverflow) n2)"
    "res_smallTouchTargets ?r + length (filter (\<lambda>i. raw_type i = TouchTarget) n2)
         \<le> res_smallTouchTargets (foldl (inspectElement w) ?r els)"
    using Cons.IH [of ?r] by blast
  show ?case
    apply (rule exI [of _ "n1 @ n2"])
    using n1 n2 by auto
qed

lemma scan_keeps:
  "res_hasHorizontalScroll (foldl (inspectElement w) r els) = res_hasHorizontalScroll r
   \<and> res_documentWidth (foldl (inspectElement w) r els) = res_documentWidth r
   \<and> res_viewportWidth (foldl (inspectElement w) r els) = res_viewportWidth r"
  by (induction els arbitrary: r) (simp_all add: inspectElement_keeps)

lemma initialResults_fields:
  "res_hasHorizontalScroll (initialResults pg) = (pg_innerWidth pg < pg_scrollWidth pg)"
  "res_documentWidth (initialResults pg) = pg_scrollWidth pg"
  "res_viewportWidth (initialResults pg) = pg_innerWidth pg"
  "res_issues (initialResults pg) = []"
  "res_overflowingElements (initialResults pg) = 0"
  "res_truncatedText (initialResults pg) = 0"
  "res_smallTouchTargets (initialResults pg) = 0"
  by (simp_all add: initialResults_def)

lemma scanned_fields:
  "res_hasHorizontalScroll (foldl (inspectElement w) (initialResults pg) els) = (pg_innerWidth pg < pg_scrollWidth pg)"
  "res_documentWidth (foldl (inspectElement w) (initialResults pg) els) = pg_scrollWidth pg"
  "res_viewportWidth (foldl (inspectElement w) (initialResults pg) els) = pg_innerWidth pg"
  by (simp_all add: scan_keeps initialResults_fields)

lemma inspectPage_results:
  "\<exists>new. res_issues (inspectPage pg) =
       (if pg_innerWidth pg < pg_scrollWidth pg then [pageLevelIssue pg (initialResults pg)] else []) @ new
     \<and> (\<forall>i\<in>set new. \<not> prefix ''Page has horizontal scrollbar'' (raw_description i))
     \<and> res_overflowingElements (inspectPage pg) =
         length (filter (\<lambda>i. raw_type i = HorizontalOverflow) new)
     \<and> res_truncatedText (inspectPage pg) =
         length (filter (\<lambda>i. raw_type i = TextOverflow) new)
     \<and> length (filter (\<lambda>i. raw_type i = TouchTarget) new) \<le> res_smallTouchTargets (inspectPage pg)"
proof -
  let ?scanned = "foldl (inspectElement (pg_innerWidth pg)) (initialResults pg) (pg_elements pg)"
  obtain new where new:
    "res_issues ?scanned = res_issues (initialResults pg) @ new"
    "\<forall>i\<in>set new. \<not> prefix ''Page has horizontal scrollbar'' (raw_description i)"
    "res_overflowingElements ?scanned =
         res_overflowingElements (initialResults pg) + length (filter (\<lambda>i. raw_type i = HorizontalOverflow) new)"
    "res_truncatedText ?scanned =
         res_truncatedText (initialResults pg) + length (filter (\<lambda>i. raw_type i = TextOverflow) new)"
    "res_smallTouchTargets (initialResults pg) + length (filter (\<lambda>i. raw_type i = TouchTarget) new)
         \<le> res_smallTouchTargets ?scanned"
    using scan_elements [of "pg_innerWidth pg" "initialResults pg" "pg_elements pg"] by blast
  have page: "pageLevelIssue pg ?scanned = pageLevelIssue pg (initialResults pg)"
    by (simp add: pageLevelIssue_def scanned_fields initialResults_fields)
  show ?thesis
    apply (rule exI [of _ new])
    using new page
    by (simp add: inspectPage_def Let_def scanned_fields initialResults_fields)
qed

lemma inspectPage_metrics:
  "res_hasHorizontalScroll (inspectPage pg) = (pg_innerWidth pg < pg_scrollWidth pg)"
  "res_documentWidth (inspectPage pg) = pg_scrollWidth pg"
  "res_viewportWidth (inspectPage pg) = pg_innerWidth pg"
  by (simp_all add: inspectPage_def Let_def scanned_fields)

lemma isPageLevel_toDOMIssue:
  "isPageLevel (toDOMIssue vp i) =
    (raw_type i = HorizontalOverflow \<and> prefix ''Page has horizontal scrollbar'' (raw_description i))"
  by (simp add: isPageLevel_def toDOMIssue_def)

lemma pageLevelIssue_fields:
  "raw_type (pageLevelIssue pg r) = HorizontalOverflow"
  "raw_severity (pageLevelIssue pg r) = High"
  "raw_selector (pageLevelIssue pg r) = ''body''"
  "raw_description (pageLevelIssue pg r) = ''Page has horizontal scrollbar (document: ''
       @ showInt (res_documentWidth r) @ ''px, viewport: ''
       @ showInt (res_viewportWidth r) @ ''px)''"
  "prefix ''Page has horizontal scrollbar'' (raw_description (pageLevelIssue pg r))"
  by (simp_all add: pageLevelIssue_def)

section \<open>The loop over the viewports and the summary\<close>

lemma worstStep_invariant:
  "(fst (foldl worstStep (None, 0) vrs) = None \<longrightarrow>
      snd (foldl worstStep (None, 0) vrs) = 0 \<and> (\<forall>j<length vrs. length (issues (vrs ! j)) = 0))
   \<and> (\<forall>n. fst (foldl worstStep (None, 0) vrs) = Some n \<longrightarrow>
        (\<exists>i<length vrs. n = name (ViewportAnalysis.viewport (vrs ! i))
           \<and> snd (foldl worstStep (None, 0) vrs) = length (issues (vrs ! i))
           \<and> 0 < length (issues (vrs ! i))
           \<and> (\<forall>j<i. length (issues (vrs ! j)) < length (issues (vrs ! i)))
           \<and> (\<forall>j. i < j \<and> j < length vrs \<longrightarrow> length (issues (vrs ! j)) \<le> length (issues (vrs ! i)))))"
proof (induction vrs rule: rev_induct)
  case Nil
  show ?case by simp
next
  case (snoc v vrs)
  let ?st = "foldl worstStep (None, 0) vrs"
  show ?case
  proof (cases "snd ?st < length (issues v)")
    case True
    then have st: "foldl worstStep (None, 0) (vrs @ [v]) =
        (Some (name (ViewportAnalysis.viewport v)), length (issues v))"
      by (simp add: worstStep_def)
    have below: "\<forall>j<length vrs. length (issues (vrs ! j)) < length (issues v)"
    proof (intro allI impI)
      fix j assume j: "j < length vrs"
      show "length (issues (vrs ! j)) < length (issues v)"
      proof (cases "fst ?st")
        case None
        with snoc.IH j True show ?thesis by simp
      next
        case (Some n)
        with snoc.IH obtain i where i: "i < length vrs"
          "snd ?st = length (issues (vrs ! i))"
          "\<forall>j<i. length (issues (vrs ! j)) < length (issues (vrs ! i))"
          "\<forall>j. i < j \<and> j < length vrs \<longrightarrow> length (issues (vrs ! j)) \<le> length (issues (vrs ! i))"
          by blast
        have "length (issues (vrs ! j)) \<le> length (issues (vrs ! i))"
          using i(3,4) j by (cases "j < i"; cases "j = i") (auto simp: less_imp_le)
        with True i(2) show ?thesis by simp
      qed
    qed
    have "\<exists>i<length (vrs @ [v]). name (ViewportAnalysis.viewport v) = name (ViewportAnalysis.viewport ((vrs @ [v]) ! i))
           \<and> length (issues v) = length (issues ((vrs @ [v]) ! i))
           \<and> 0 < length (issues ((vrs @ [v]) ! i))
           \<and> (\<forall>j<i. length (issues ((vrs @ [v]) ! j)) < length (issues ((vrs @ [v]) ! i)))
           \<and> (\<forall>j. i < j \<and> j < length (vrs @ [v]) \<longrightarrow>
                length (issues ((vrs @ [v]) ! j)) \<le> length (issues ((vrs @ [v]) ! i)))"
      apply (rule exI [of _ "length vrs"])
      using True below by (auto simp add: nth_append)
    then show ?thesis
      unfolding st by simp
  next
    case False
    then have st: "foldl worstStep (None, 0) (vrs @ [v]) = ?st"
      by (simp add: worstStep_def)
    show ?thesis
    proof (cases "fst ?st")
      case None
      with snoc.IH False have "snd ?st = 0" "\<forall>j<length vrs. length (issues (vrs ! j)) = 0"
        "length (issues v) = 0"
        by simp_all
      then have "\<forall>j<length (vrs @ [v]). length (issues ((vrs @ [v]) ! j)) = 0"
        by (simp add: nth_append less_Suc_eq)
      with None \<open>snd ?st = 0\<close> show ?thesis
        unfolding st by simp
    next
      case (Some n)
      with snoc.IH obtain i where i: "i < length vrs"
          "n = name (ViewportAnalysis.viewport (vrs ! i))"
          "snd ?st = length (issues (vrs ! i))"
          "0 < length (issues (vrs ! i))"
          "\<forall>j<i. length (issues (vrs ! j)) < length (issues (vrs ! i))"
          "\<forall>j. i < j \<and> j < length vrs \<longrightarrow> length (issues (vrs ! j)) \<le> length (issues (vrs ! i))"
        by blast
      have "\<exists>i<length (vrs @ [v]). n = name (ViewportAnalysis.viewport ((vrs @ [v]) ! i))
           \<and> snd ?st = length (issues ((vrs @ [v]) ! i))
           \<and> 0 < length (issues ((vrs @ [v]) ! i))
           \<and> (\<forall>j<i. length (issues ((vrs @ [v]) ! j)) < length (issues ((vrs @ [v]) ! i)))
           \<and> (\<forall>j. i < j \<and> j < length (vrs @ [v]) \<longrightarrow>
                length (issues ((vrs @ [v]) ! j)) \<le> length (issues ((vrs @ [v]) ! i)))"
        apply (rule exI [of _ i])
        using i False by (auto simp: nth_append less_Suc_eq)
      with Some show ?thesis
        unfolding st by simp
    qed
  qed
qed

lemma analyzeViewports_Inr:
  "analyzeViewports pass acc vps = Inr rs \<Longrightarrow>
    \<exists>new. rs = acc @ new \<and> map ViewportAnalysis.viewport new = vps
      \<and> (\<forall>i<length vps. \<exists>pg. pass (length acc + i) (vps ! i) = Inr pg
            \<and> new ! i = analyzeViewport pg (vps ! i))"
proof (induction vps arbitrary: acc)
  case Nil
  then show ?case by simp
next
  case (Cons vp vps)
  from Cons.prems obtain pg where pg: "pass (length acc) vp = Inr pg"
    and rest: "analyzeViewports pass (acc @ [analyzeViewport pg vp]) vps = Inr rs"
    by (auto split: sum.splits)
  from Cons.IH [OF rest] obtain new where new:
    "rs = (acc @ [analyzeViewport pg vp]) @ new" "map ViewportAnalysis.viewport new = vps"
    "\<forall>i<length vps. \<exists>pg'. pass (length (acc @ [analyzeViewport pg vp]) + i) (vps ! i) = Inr pg'
            \<and> new ! i = analyzeViewport pg' (vps ! i)"
    by blast
  have vp: "ViewportAnalysis.viewport (analyzeViewport pg vp) = vp"
    by (simp add: analyzeViewport_def Let_def)
  have "\<forall>i<length (vp # vps). \<exists>pg'. pass (length acc + i) ((vp # vps) ! i) = Inr pg'
            \<and> (analyzeViewport pg vp # new) ! i = analyzeViewport pg' ((vp # vps) ! i)"
  proof (intro allI impI)
    fix i assume "i < length (vp # vps)"
    then show "\<exists>pg'. pass (length acc + i) ((vp # vps) ! i) = Inr pg'
            \<and> (analyzeViewport pg vp # new) ! i = analyzeViewport pg' ((vp # vps) ! i)"
      using pg new(3) by (cases i) auto
  qed
  then show ?case
    apply (intro exI [of _ "analyzeViewport pg vp # new"])
    using new(1,2) vp by simp
qed

lemma analyzeViewports_first_failure:
  "i < length vps \<Longrightarrow> pass (length acc + i) (vps ! i) = Inl e \<Longrightarrow>
   (\<forall>j<i. \<not> isl (pass (length acc + j) (vps ! j))) \<Longrightarrow>
   analyzeViewports pass acc vps = Inl e"
proof (induction vps arbitrary: acc i)
  case Nil
  then show ?case by simp
next
  case (Cons vp vps)
  show ?case
  proof (cases i)
    case 0
    with Cons.prems show ?thesis by simp
  next
    case (Suc k)
    with Cons.prems(3) have "\<not> isl (pass (length acc) vp)"
      by force
    then obtain pg where pg: "pass (length acc) vp = Inr pg"
      by (cases "pass (length acc) vp") auto
    have "analyzeViewports pass (acc @ [analyzeViewport pg vp]) vps = Inl e"
    proof (rule Cons.IH [of k])
      show "k < length vps" using Cons.prems(1) Suc by simp
      show "pass (length (acc @ [analyzeViewport pg vp]) + k) (vps ! k) = Inl e"
        using Cons.prems(2) Suc by simp
      show "\<forall>j<k. \<not> isl (pass (length (acc @ [analyzeViewport pg vp]) + j) (vps ! j))"
      proof (intro allI impI)
        fix j assume "j < k"
        then have "Suc j < i" using Suc by simp
        with Cons.prems(3) have "\<not> isl (pass (length acc + Suc j) ((vp # vps) ! Suc j))"
          by blast
        then show "\<not> isl (pass (length (acc @ [analyzeViewport pg vp]) + j) (vps ! j))"
          by simp
      qed
    qed
    with pg show ?thesis by simp
  qed
qed

lemma run_result:
  "analyzeResponsiveDesign np now u vps = Inr r \<Longrightarrow>
    \<exists>page. np = Inr page \<and> page_goto page u = None \<and> page_close page = None
      \<and> analyzeViewports (page_pass page) [] vps = Inr (viewports r)
      \<and> summary r = summarize (viewports r)"
  by (auto simp: analyzeResponsiveDesign_def Let_def split: sum.splits option.splits)

lemma sample_run:
  "analyzeResponsiveDesign (Inr steadyPage) ''2025-01-01T00:00:00.000Z'' ''http://localhost:3000''
     sampleViewports = Inr sampleRun"
  by (simp add: analyzeResponsiveDesign_def steadyPage_def sampleRun_def sampleResults_def
      sampleViewports_def Let_def)

lemma quiet_run:
  "analyzeResponsiveDesign (Inr quietPage) ''2025-01-01T00:00:00.000Z'' ''http://localhost:3000''
     sampleViewports = Inr quietRun"
  by (simp add: analyzeResponsiveDesign_def quietPage_def quietRun_def quietResults_def
      sampleViewports_def Let_def)

section \<open>First-seen order and the stable sort\<close>

lemma firstIndex_append_mem: "a \<in> set xs \<Longrightarrow> firstIndex (xs @ ys) a = firstIndex xs a"
  by (simp add: firstIndex_def)

lemma firstIndex_append_new: "a \<notin> set xs \<Longrightarrow> firstIndex (xs @ [a]) a = length xs"
  unfolding firstIndex_def
  by (induction xs) auto

lemma firstIndex_less: "a \<in> set xs \<Longrightarrow> firstIndex xs a < length xs"
  unfolding firstIndex_def
  by (induction xs) auto




lemma set_firstSeen: "set (firstSeen xs) = set xs"
  by (induction xs) auto

lemma distinct_firstSeen: "distinct (firstSeen xs)"
  by (induction xs) (auto simp: set_firstSeen)

lemma firstSeen_snoc:
  "firstSeen (xs @ [x]) = (if x \<in> set xs then firstSeen xs else firstSeen xs @ [x])"
  by (induction xs) auto

lemma firstSeen_replicate_append:
  "firstSeen (replicate c a @ ys) = (if c = 0 then firstSeen ys else firstSeen (a # ys))"
proof (induction c)
  case 0
  show ?case by simp
next
  case (Suc c)
  then show ?case by (cases c) simp_all
qed

lemma sorted_firstSeen:
  "sorted_wrt (\<lambda>a b. firstIndex xs a < firstIndex xs b) (firstSeen xs)"
proof (induction xs rule: rev_induct)
  case Nil
  show ?case by simp
next
  case (snoc x xs)
  have mono: "sorted_wrt (\<lambda>a b. firstIndex (xs @ [x]) a < firstIndex (xs @ [x]) b) (firstSeen xs)"
    using snoc.IH
  proof (rule sorted_wrt_mono_rel [rotated])
    fix a b assume "a \<in> set (firstSeen xs)" "b \<in> set (firstSeen xs)"
      "firstIndex xs a < firstIndex xs b"
    then show "firstIndex (xs @ [x]) a < firstIndex (xs @ [x]) b"
      by (simp add: firstIndex_append_mem set_firstSeen)
  qed
  show ?case
  proof (cases "x \<in> set xs")
    case True
    with mono show ?thesis by (simp add: firstSeen_snoc)
  next
    case False
    have "\<forall>a\<in>set (firstSeen xs). firstIndex (xs @ [x]) a < firstIndex (xs @ [x]) x"
    proof
      fix a assume "a \<in> set (firstSeen xs)"
      then have a: "a \<in> set xs" by (simp add: set_firstSeen)
      have "firstIndex xs a < length xs"
        using a by (rule firstIndex_less)
      then show "firstIndex (xs @ [x]) a < firstIndex (xs @ [x]) x"
        using a False by (simp add: firstIndex_append_mem firstIndex_append_new)
    qed
    with mono False show ?thesis
      by (simp add: firstSeen_snoc sorted_wrt_append)
  qed
qed

section \<open>Pixel literals and issue keys\<close>

lemma normalizePx_head:
  "take 2 (normalizePx cs) = ''px'' \<Longrightarrow> take 2 cs = ''px''"
proof (cases cs)
  case Nil
  assume "take 2 (normalizePx cs) = ''px''"
  with Nil show ?thesis by simp
next
  case (Cons a as)
  assume px: "take 2 (normalizePx cs) = ''px''"
  show ?thesis
  proof (cases as)
    case Nil
    with px Cons show ?thesis
      by (simp add: isDigit_def split: if_splits)
  next
    case (Cons b bs)
    with px \<open>cs = a # as\<close> show ?thesis
      by (simp split: if_splits)
  qed
qed

lemma normalizePx_no_literal: "\<not> hasPxLiteral (normalizePx s)"
proof (induction s rule: normalizePx.induct)
  case 1
  show ?case by simp
next
  case (2 c cs)
  show ?case
  proof (cases "isDigit c \<and> take 2 (dropWhile isDigit cs) = ''px''")
    case True
    with 2 show ?thesis
      by (simp add: isDigit_def)
  next
    case False
    have "\<not> (isDigit c \<and> take 2 (normalizePx cs) = ''px'')"
    proof
      assume a: "isDigit c \<and> take 2 (normalizePx cs) = ''px''"
      then have "take 2 cs = ''px''"
        by (simp add: normalizePx_head)
      then obtain rest where "cs = CHR ''p'' # CHR ''x'' # rest"
        by (cases cs; cases "tl cs") (auto split: if_splits)
      then have "dropWhile isDigit cs = cs"
        by (simp add: isDigit_def)
      with \<open>take 2 cs = ''px''\<close> a False show False by simp
    qed
    note head = this
    have eq: "normalizePx (c # cs) = c # normalizePx cs"
      by (subst normalizePx.simps) (rule if_not_P [OF False])
    have tail: "\<not> hasPxLiteral (normalizePx cs)"
      using 2(2) [OF False] .
    show ?thesis
      unfolding eq using head tail by simp
  qed
qed

lemma typeName_no_bar: "CHR ''|'' \<notin> set (typeName t)"
  by (cases t) simp_all

lemma typeName_inject: "typeName a = typeName b \<Longrightarrow> a = b"
  by (cases a; cases b) simp_all

lemma split_at_separator:
  assumes "c \<notin> set xs" "c \<notin> set ys" "xs @ c # s = ys @ c # t"
  shows "xs = ys \<and> s = t"
proof -
  have "takeWhile (\<lambda>x. x \<noteq> c) (xs @ c # s) = xs"
    using assms(1) by (induction xs) auto
  moreover have "takeWhile (\<lambda>x. x \<noteq> c) (ys @ c # t) = ys"
    using assms(2) by (induction ys) auto
  ultimately have "xs = ys"
    using assms(3) by simp
  with assms(3) show ?thesis
    by simp
qed

lemma issueKey_eq_iff:
  "issueKey i = issueKey j \<longleftrightarrow> type i = type j \<and> selector i = selector j"
proof
  assume eq: "issueKey i = issueKey j"
  then have "typeName (type i) @ CHR ''|'' # selector i = typeName (type j) @ CHR ''|'' # selector j"
    by (simp add: issueKey_def)
  then have "typeName (type i) = typeName (type j) \<and> selector i = selector j"
    by (rule split_at_separator [OF typeName_no_bar typeName_no_bar])
  then show "type i = type j \<and> selector i = selector j"
    by (auto dest: typeName_inject)
next
  assume "type i = type j \<and> selector i = selector j"
  then show "issueKey i = issueKey j"
    by (simp add: issueKey_def)
qed

section \<open>The issue map of the report\<close>

lemma find_append:
  "List.find P (xs @ ys) = (case List.find P xs of None \<Rightarrow> List.find P ys | Some x \<Rightarrow> Some x)"
  by (induction xs) auto

lemma recordIssue_keys:
  "map fst (recordIssue n m i) =
    (if issueKey i \<in> set (map fst m) then map fst m else map fst m @ [issueKey i])"
proof (cases "map_of m (issueKey i)")
  case None
  then have "issueKey i \<notin> set (map fst m)"
    by (simp add: map_of_eq_None_iff)
  with None show ?thesis
    by (simp add: recordIssue_def Let_def update_conv' update_keys)
next
  case (Some e)
  then have "issueKey i \<in> set (map fst m)"
    by (metis map_of_eq_None_iff option.distinct(1) set_map)
  with Some show ?thesis
    by (simp add: recordIssue_def Let_def update_keys)
qed

lemma recordIssue_map_of_other:
  "k \<noteq> issueKey i \<Longrightarrow> map_of (recordIssue n m i) k = map_of m k"
  by (cases "map_of m (issueKey i)")
     (simp_all add: recordIssue_def Let_def update_conv')

lemma recordIssue_map_of_new:
  "map_of m (issueKey i) = None \<Longrightarrow>
    map_of (recordIssue n m i) (issueKey i) =
      Some \<lparr>entry_type = type i, entry_selector = selector i, entry_severity = severity i,
            entry_description = normalizePx (description i),
            entry_suggestedFix = suggestedFix i, entry_viewports = [n]\<rparr>"
  by (simp add: recordIssue_def Let_def update_conv')

lemma recordIssue_map_of_old:
  "map_of m (issueKey i) = Some e \<Longrightarrow>
    map_of (recordIssue n m i) (issueKey i) =
      Some (e\<lparr>entry_viewports :=
        (if n \<in> set (entry_viewports e) then entry_viewports e else entry_viewports e @ [n])\<rparr>)"
  by (simp add: recordIssue_def Let_def update_conv')


lemma mergedEntry_snoc_other:
  "k \<noteq> issueKey i \<Longrightarrow> mergedEntry (ps @ [(n, i)]) k = mergedEntry ps k"
  by (simp add: mergedEntry_def find_append split: option.splits)

lemma mergedEntry_snoc_new:
  assumes "mergedEntry ps (issueKey i) = None"
  shows "mergedEntry (ps @ [(n, i)]) (issueKey i) =
      Some \<lparr>entry_type = type i, entry_selector = selector i, entry_severity = severity i,
            entry_description = normalizePx (description i),
            entry_suggestedFix = suggestedFix i, entry_viewports = [n]\<rparr>"
proof -
  from assms have none: "List.find (\<lambda>p. issueKey (snd p) = issueKey i) ps = None"
    by (simp add: mergedEntry_def split: option.splits)
  then have "filter (\<lambda>p. issueKey (snd p) = issueKey i) ps = []"
    by (auto simp add: find_None_iff filter_empty_conv)
  with none show ?thesis
    by (simp add: mergedEntry_def find_append)
qed

lemma mergedEntry_snoc_old:
  assumes "mergedEntry ps (issueKey i) = Some e"
  shows "mergedEntry (ps @ [(n, i)]) (issueKey i) =
      Some (e\<lparr>entry_viewports :=
        (if n \<in> set (entry_viewports e) then entry_viewports e else entry_viewports e @ [n])\<rparr>)"
proof -
  from assms obtain p where p: "List.find (\<lambda>p. issueKey (snd p) = issueKey i) ps = Some p"
    by (auto simp: mergedEntry_def split: option.splits)
  let ?vs = "map fst (filter (\<lambda>p. issueKey (snd p) = issueKey i) ps)"
  from assms p have e: "e = \<lparr>entry_type = type (snd p),
               entry_selector = selector (snd p),
               entry_severity = severity (snd p),
               entry_description = normalizePx (description (snd p)),
               entry_suggestedFix = suggestedFix (snd p),
               entry_viewports = firstSeen ?vs\<rparr>"
    by (simp add: mergedEntry_def)
  have "firstSeen (?vs @ [n]) = (if n \<in> set (firstSeen ?vs) then firstSeen ?vs else firstSeen ?vs @ [n])"
    by (simp only: firstSeen_snoc set_firstSeen)
  with p e show ?thesis
    by (simp add: mergedEntry_def find_append)
qed

lemma issueMap_invariant:
  "map fst (foldl (\<lambda>m p. recordIssue (fst p) m (snd p)) [] ps) = firstSeen (map (\<lambda>p. issueKey (snd p)) ps)
   \<and> (\<forall>k. map_of (foldl (\<lambda>m p. recordIssue (fst p) m (snd p)) [] ps) k = mergedEntry ps k)"
proof (induction ps rule: rev_induct)
  case Nil
  show ?case by (simp add: mergedEntry_def)
next
  case (snoc p ps)
  obtain n i where p: "p = (n, i)"
    by (cases p)
  let ?m = "foldl (\<lambda>m p. recordIssue (fst p) m (snd p)) [] ps"
  have step: "foldl (\<lambda>m p. recordIssue (fst p) m (snd p)) [] (ps @ [p]) = recordIssue n ?m i"
    by (simp add: p)
  have keys: "map fst ?m = firstSeen (map (\<lambda>p. issueKey (snd p)) ps)"
    and vals: "\<And>k. map_of ?m k = mergedEntry ps k"
    using snoc.IH by simp_all
  have k': "map fst (recordIssue n ?m i) = firstSeen (map (\<lambda>p. issueKey (snd p)) (ps @ [p]))"
    using keys by (simp add: recordIssue_keys firstSeen_snoc set_firstSeen p)
  have v': "map_of (recordIssue n ?m i) k = mergedEntry (ps @ [p]) k" for k
  proof (cases "k = issueKey i")
    case False
    then show ?thesis
      by (simp add: recordIssue_map_of_other mergedEntry_snoc_other vals p)
  next
    case True
    show ?thesis
    proof (cases "map_of ?m (issueKey i)")
      case None
      with vals have "mergedEntry ps (issueKey i) = None"
        by simp
      from recordIssue_map_of_new [OF None] mergedEntry_snoc_new [OF this]
      show ?thesis
        unfolding True p by simp
    next
      case (Some e)
      with vals have "mergedEntry ps (issueKey i) = Some e"
        by simp
      from recordIssue_map_of_old [OF Some] mergedEntry_snoc_old [OF this]
      show ?thesis
        unfolding True p by simp
    qed
  qed
  from k' v' show ?case
    unfolding step by blast
qed

lemma buildIssueMap_occurrences:
  "buildIssueMap vps = foldl (\<lambda>m p. recordIssue (fst p) m (snd p)) [] (occurrences vps)"
proof -
  have "foldl (\<lambda>issueMap vp. foldl (recordIssue (name (ViewportAnalysis.viewport vp))) issueMap (issues vp)) m vps
      = foldl (\<lambda>m p. recordIssue (fst p) m (snd p)) m (occurrences vps)" for m
  proof (induction vps arbitrary: m)
    case Nil
    show ?case by (simp add: occurrences_def)
  next
    case (Cons vp vps)
    show ?case
      by (simp add: occurrences_def foldl_map Cons.IH [unfolded occurrences_def])
  qed
  then show ?thesis
    by (simp add: buildIssueMap_def)
qed

lemma snd_occurrences: "map snd (occurrences vps) = concat (map issues vps)"
  by (induction vps) (simp_all add: occurrences_def comp_def)

lemma find_snd:
  "List.find (\<lambda>p. Q (snd p)) ps = Some p \<Longrightarrow> List.find Q (map snd ps) = Some (snd p)"
  by (induction ps) (auto split: if_splits)

lemma filter_stamped:
  "map fst (filter (\<lambda>p. issueKey (snd p) = k) (map (\<lambda>issue. (n, issue)) is))
    = replicate (length (filter (\<lambda>i. issueKey i = k) is)) n"
  by (induction "is") simp_all

lemma viewports_of_key:
  "firstSeen (map fst (filter (\<lambda>p. issueKey (snd p) = k) (occurrences vps)))
    = firstSeen (map (\<lambda>vp. name (ViewportAnalysis.viewport vp))
        (filter (\<lambda>vp. k \<in> issueKey ` set (issues vp)) vps))"
proof (induction vps)
  case Nil
  show ?case by (simp add: occurrences_def)
next
  case (Cons vp vps)
  let ?n = "name (ViewportAnalysis.viewport vp)"
  let ?c = "length (filter (\<lambda>i. issueKey i = k) (issues vp))"
  let ?rest = "map fst (filter (\<lambda>p. issueKey (snd p) = k) (occurrences vps))"
  have occ: "occurrences (vp # vps) = map (\<lambda>issue. (?n, issue)) (issues vp) @ occurrences vps"
    by (simp add: occurrences_def)
  have left: "map fst (filter (\<lambda>p. issueKey (snd p) = k) (occurrences (vp # vps)))
      = replicate ?c ?n @ ?rest"
    unfolding occ by (simp add: filter_stamped)
  have zero: "?c = 0 \<longleftrightarrow> k \<notin> issueKey ` set (issues vp)"
    by (auto simp: filter_empty_conv)
  show ?case
    unfolding left firstSeen_replicate_append
    using zero Cons.IH by auto
qed


lemma buildIssueMap_keys:
  "map fst (buildIssueMap vps) = firstSeen (map issueKey (concat (map issues vps)))"
proof -
  have "map (\<lambda>p. issueKey (snd p)) (occurrences vps) = map issueKey (map snd (occurrences vps))"
    by simp
  then show ?thesis
    using issueMap_invariant [of "occurrences vps"]
    by (simp only: buildIssueMap_occurrences snd_occurrences)
qed

lemma buildIssueMap_entry:
  assumes "(k, e) \<in> set (buildIssueMap vps)"
  shows "\<exists>i. List.find (\<lambda>i. issueKey i = k) (concat (map issues vps)) = Some i
      \<and> entry_type e = type i \<and> entry_selector e = selector i
      \<and> entry_severity e = severity i \<and> entry_suggestedFix e = suggestedFix i
      \<and> entry_description e = normalizePx (description i)
      \<and> entry_viewports e =
          firstSeen (map (\<lambda>vp. name (ViewportAnalysis.viewport vp))
            (filter (\<lambda>vp. k \<in> issueKey ` set (issues vp)) vps))"
proof -
  have "distinct (map fst (buildIssueMap vps))"
    by (simp add: buildIssueMap_keys distinct_firstSeen)
  with assms have "map_of (buildIssueMap vps) k = Some e"
    by simp
  then have me: "mergedEntry (occurrences vps) k = Some e"
    using issueMap_invariant [of "occurrences vps"]
    by (simp add: buildIssueMap_occurrences)
  then obtain p where p: "List.find (\<lambda>p. issueKey (snd p) = k) (occurrences vps) = Some p"
    by (auto simp: mergedEntry_def split: option.splits)
  from me p have e: "e = \<lparr>entry_type = type (snd p),
               entry_selector = selector (snd p),
               entry_severity = severity (snd p),
               entry_description = normalizePx (description (snd p)),
               entry_suggestedFix = suggestedFix (snd p),
               entry_viewports =
                 firstSeen (map fst (filter (\<lambda>p. issueKey (snd p) = k) (occurrences vps)))\<rparr>"
    by (simp add: mergedEntry_def)
  have f: "List.find (\<lambda>i. issueKey i = k) (concat (map issues vps)) = Some (snd p)"
    using find_snd [of "\<lambda>i. issueKey i = k", OF p] by (simp add: snd_occurrences)
  show ?thesis
    apply (rule exI [of _ "snd p"])
    using f by (simp add: e viewports_of_key)
qed

lemma sample_issueMap:
  "buildIssueMap sampleResults =
    [(''horizontal-overflow|body'',
      \<lparr>entry_type = HorizontalOverflow, entry_selector = ''body'', entry_severity = High,
       entry_description = ''Page has horizontal scrollbar (document: Npx, viewport: Npx)'',
       entry_suggestedFix = Some ''Add overflow-x-hidden to body or fix overflowing children'',
       entry_viewports = [''iPhone SE'', ''iPhone 8'', ''iPhone 14'']\<rparr>),
     (''touch-target|#more'',
      \<lparr>entry_type = TouchTarget, entry_selector = ''#more'', entry_severity = Medium,
       entry_description =
         ''Interactive element too small for touch (20xNpx, min 44xNpx recommended)'',
       entry_suggestedFix = Some ''min-w-[44px] min-h-[44px] or p-3'',
       entry_viewports = [''iPhone SE'', ''iPhone 8'', ''iPhone 14'', ''lg (Tailwind)'']\<rparr>)]"
  by code_simp

section \<open>The observations of a whole pass\<close>

lemma visible_element_overflow: "\<not> isInvisible el \<Longrightarrow>
    \<exists>new. res_issues (inspectElement w r el) = res_issues r @ new
      \<and> map raw_severity (filter (\<lambda>i. raw_type i = HorizontalOverflow) new) =
          (if rect_right (el_rect el) > of_int w + 5
           then [if rect_right (el_rect el) - of_int w > 50 then High else Medium] else [])"
proof -
  assume "\<not> isInvisible el"
  from inspectElement_visible [OF this, of w r]
  obtain ho off tt tx where *:
     "res_issues (inspectElement w r el) = res_issues r @ ho @ off @ tt @ tx"
     "\<forall>i\<in>set ho. raw_type i = HorizontalOverflow \<and> \<not> prefix ''Page has horizontal scrollbar'' (raw_description i)"
     "\<forall>i\<in>set off. raw_type i = Offscreen \<and> \<not> prefix ''Page has horizontal scrollbar'' (raw_description i)"
     "\<forall>i\<in>set tt. raw_type i = TouchTarget \<and> \<not> prefix ''Page has horizontal scrollbar'' (raw_description i)"
     "\<forall>i\<in>set tx. raw_type i = TextOverflow \<and> \<not> prefix ''Page has horizontal scrollbar'' (raw_description i)"
     "map raw_severity ho =
          (if rect_right (el_rect el) > of_int w + 5
           then [if rect_right (el_rect el) - of_int w > 50 then High else Medium] else [])"
    by blast
  have "filter (\<lambda>i. raw_type i = HorizontalOverflow) (ho @ off @ tt @ tx) = ho"
    using *(2-5) by (simp add: filter_none)
  with *(1,6) show ?thesis by metis
qed

lemma visible_element_touch:
  "\<not> isInvisible el \<Longrightarrow>
    \<exists>new. res_issues (inspectElement w r el) = res_issues r @ new
      \<and> res_smallTouchTargets (inspectElement w r el) = res_smallTouchTargets r +
          (if isInteractive el \<and> (rect_width (el_rect el) < 44 \<or> rect_height (el_rect el) < 44)
           then 1 else 0)
      \<and> map raw_severity (filter (\<lambda>i. raw_type i = TouchTarget) new) =
          (if isInteractive el \<and> (rect_width (el_rect el) < 30 \<or> rect_height (el_rect el) < 30)
           then [Medium] else [])
      \<and> (isInteractive el \<and> 30 \<le> min (rect_width (el_rect el)) (rect_height (el_rect el))
           \<and> min (rect_width (el_rect el)) (rect_height (el_rect el)) < 44 \<longrightarrow>
          res_smallTouchTargets (inspectElement w r el) = res_smallTouchTargets r + 1
          \<and> filter (\<lambda>i. raw_type i = TouchTarget) new = [])"
proof -
  assume "\<not> isInvisible el"
  from inspectElement_visible [OF this, of w r]
  obtain ho off tt tx where *:
     "res_issues (inspectElement w r el) = res_issues r @ ho @ off @ tt @ tx"
     "\<forall>i\<in>set ho. raw_type i = HorizontalOverflow \<and> \<not> prefix ''Page has horizontal scrollbar'' (raw_description i)"
     "\<forall>i\<in>set off. raw_type i = Offscreen \<and> \<not> prefix ''Page has horizontal scrollbar'' (raw_description i)"
     "\<forall>i\<in>set tt. raw_type i = TouchTarget \<and> \<not> prefix ''Page has horizontal scrollbar'' (raw_description i)"
     "\<forall>i\<in>set tx. raw_type i = TextOverflow \<and> \<not> prefix ''Page has horizontal scrollbar'' (raw_description i)"
     "map raw_severity tt =
          (if isInteractive el \<and> (rect_width (el_rect el) < 30 \<or> rect_height (el_rect el) < 30)
           then [Medium] else [])"
     "res_smallTouchTargets (inspectElement w r el) = res_smallTouchTargets r +
          (if isInteractive el \<and> (rect_width (el_rect el) < 44 \<or> rect_height (el_rect el) < 44)
           then 1 else 0)"
    by blast
  let ?new = "ho @ off @ tt @ tx"
  have f: "filter (\<lambda>i. raw_type i = TouchTarget) ?new = tt"
    using *(2-5) by (simp add: filter_none)
  have mid: "isInteractive el \<and> 30 \<le> min (rect_width (el_rect el)) (rect_height (el_rect el))
           \<and> min (rect_width (el_rect el)) (rect_height (el_rect el)) < 44 \<longrightarrow>
          res_smallTouchTargets (inspectElement w r el) = res_smallTouchTargets r + 1 \<and> tt = []"
    using *(6,7) by (auto simp: min_def split: if_splits)
  show ?thesis
    apply (rule exI [of _ ?new])
    unfolding f using *(1,6,7) mid by simp
qed

lemma checkHorizontalOverflow_overflow:
  "map (\<lambda>i. (raw_severity i, Some (info_rect (raw_element i))))
     (filter (\<lambda>i. raw_type i = HorizontalOverflow
                \<and> \<not> prefix ''Page has horizontal scrollbar'' (raw_description i))
        (res_issues (checkHorizontalOverflow w el r)))
   = map (\<lambda>i. (raw_severity i, Some (info_rect (raw_element i))))
       (filter (\<lambda>i. raw_type i = HorizontalOverflow
                \<and> \<not> prefix ''Page has horizontal scrollbar'' (raw_description i))
          (res_issues r))
     @ (if of_int w + 5 < rect_right (el_rect el)
        then [(if 50 < rect_right (el_rect el) - of_int w then High else Medium,
               Some (info_rect (getElementInfo el)))]
        else [])"
  by (simp add: checkHorizontalOverflow_def)

lemma other_checks_overflow:
  "filter (\<lambda>i. raw_type i = HorizontalOverflow \<and> P i) (res_issues (checkOffscreen el r))
     = filter (\<lambda>i. raw_type i = HorizontalOverflow \<and> P i) (res_issues r)"
  "filter (\<lambda>i. raw_type i = HorizontalOverflow \<and> P i) (res_issues (checkTouchTarget el r))
     = filter (\<lambda>i. raw_type i = HorizontalOverflow \<and> P i) (res_issues r)"
  "filter (\<lambda>i. raw_type i = HorizontalOverflow \<and> P i) (res_issues (checkTextTruncation el r))
     = filter (\<lambda>i. raw_type i = HorizontalOverflow \<and> P i) (res_issues r)"
  by (simp_all add: checkOffscreen_def checkTouchTarget_def checkTextTruncation_def Let_def)

lemma checkTouchTarget_touch:
  "map (\<lambda>i. (raw_severity i, Some (info_rect (raw_element i))))
     (filter (\<lambda>i. raw_type i = TouchTarget) (res_issues (checkTouchTarget el r)))
   = map (\<lambda>i. (raw_severity i, Some (info_rect (raw_element i))))
       (filter (\<lambda>i. raw_type i = TouchTarget) (res_issues r))
     @ (if isInteractive el \<and> (rect_width (el_rect el) < 30 \<or> rect_height (el_rect el) < 30)
        then [(Medium, Some (info_rect (getElementInfo el)))]
        else [])"
  by (auto simp add: checkTouchTarget_def Let_def)

lemma other_checks_touch:
  "filter (\<lambda>i. raw_type i = TouchTarget) (res_issues (checkHorizontalOverflow w el r))
     = filter (\<lambda>i. raw_type i = TouchTarget) (res_issues r)"
  "filter (\<lambda>i. raw_type i = TouchTarget) (res_issues (checkOffscreen el r))
     = filter (\<lambda>i. raw_type i = TouchTarget) (res_issues r)"
  "filter (\<lambda>i. raw_type i = TouchTarget) (res_issues (checkTextTruncation el r))
     = filter (\<lambda>i. raw_type i = TouchTarget) (res_issues r)"
  by (simp_all add: checkHorizontalOverflow_def checkOffscreen_def checkTextTruncation_def)

lemma inspectElement_overflow:
  "map (\<lambda>i. (raw_severity i, Some (info_rect (raw_element i))))
     (filter (\<lambda>i. raw_type i = HorizontalOverflow
                \<and> \<not> prefix ''Page has horizontal scrollbar'' (raw_description i))
        (res_issues (inspectElement w r el)))
   = map (\<lambda>i. (raw_severity i, Some (info_rect (raw_element i))))
       (filter (\<lambda>i. raw_type i = HorizontalOverflow
                \<and> \<not> prefix ''Page has horizontal scrollbar'' (raw_description i))
          (res_issues r))
     @ (if \<not> isInvisible el \<and> of_int w + 5 < rect_right (el_rect el)
        then [(if 50 < rect_right (el_rect el) - of_int w then High else Medium,
               Some (info_rect (getElementInfo el)))]
        else [])"
proof (cases "isInvisible el")
  case True
  then show ?thesis by (simp add: inspectElement_def)
next
  case False
  then show ?thesis
    by (simp only: inspectElement_def if_False other_checks_overflow
        checkHorizontalOverflow_overflow simp_thms)
qed

lemma inspectElement_touch:
  "map (\<lambda>i. (raw_severity i, Some (info_rect (raw_element i))))
     (filter (\<lambda>i. raw_type i = TouchTarget) (res_issues (inspectElement w r el)))
   = map (\<lambda>i. (raw_severity i, Some (info_rect (raw_element i))))
       (filter (\<lambda>i. raw_type i = TouchTarget) (res_issues r))
     @ (if \<not> isInvisible el \<and> isInteractive el
             \<and> (rect_width (el_rect el) < 30 \<or> rect_height (el_rect el) < 30)
        then [(Medium, Some (info_rect (getElementInfo el)))]
        else [])"
proof (cases "isInvisible el")
  case True
  then show ?thesis by (simp add: inspectElement_def)
next
  case False
  then show ?thesis
    by (simp only: inspectElement_def if_False other_checks_touch
        checkTouchTarget_touch simp_thms)
qed

lemma inspectElement_count:
  "res_smallTouchTargets (inspectElement w r el) = res_smallTouchTargets r +
     (if \<not> isInvisible el \<and> isInteractive el
          \<and> (rect_width (el_rect el) < 44 \<or> rect_height (el_rect el) < 44)
      then 1 else 0)"
  by (simp add: inspectElement_def checkTextTruncation_keeps checkTouchTarget_count
      checkOffscreen_keeps checkHorizontalOverflow_keeps)

lemma scan_overflow:
  "map (\<lambda>i. (raw_severity i, Some (info_rect (raw_element i))))
     (filter (\<lambda>i. raw_type i = HorizontalOverflow
                \<and> \<not> prefix ''Page has horizontal scrollbar'' (raw_description i))
        (res_issues (foldl (inspectElement w) r els)))
   = map (\<lambda>i. (raw_severity i, Some (info_rect (raw_element i))))
       (filter (\<lambda>i. raw_type i = HorizontalOverflow
                \<and> \<not> prefix ''Page has horizontal scrollbar'' (raw_description i))
          (res_issues r))
     @ map (\<lambda>el. (if 50 < rect_right (el_rect el) - of_int w then High else Medium,
                   Some (info_rect (getElementInfo el))))
         (filter (\<lambda>el. \<not> isInvisible el \<and> of_int w + 5 < rect_right (el_rect el)) els)"
proof (induction els arbitrary: r)
  case Nil
  show ?case by simp
next
  case (Cons el els)
  show ?case
    by (simp only: foldl_Cons Cons.IH inspectElement_overflow) simp
qed

lemma scan_touch:
  "map (\<lambda>i. (raw_severity i, Some (info_rect (raw_element i))))
     (filter (\<lambda>i. raw_type i = TouchTarget) (res_issues (foldl (inspectElement w) r els)))
   = map (\<lambda>i. (raw_severity i, Some (info_rect (raw_element i))))
       (filter (\<lambda>i. raw_type i = TouchTarget) (res_issues r))
     @ map (\<lambda>el. (Medium, Some (info_rect (getElementInfo el))))
         (filter (\<lambda>el. \<not> isInvisible el \<and> isInteractive el
             \<and> (rect_width (el_rect el) < 30 \<or> rect_height (el_rect el) < 30)) els)"
proof (induction els arbitrary: r)
  case Nil
  show ?case by simp
next
  case (Cons el els)
  show ?case
    by (simp only: foldl_Cons Cons.IH inspectElement_touch) simp
qed

lemma scan_count:
  "res_smallTouchTargets (foldl (inspectElement w) r els) = res_smallTouchTargets r +
     length (filter (\<lambda>el. \<not> isInvisible el \<and> isInteractive el
             \<and> (rect_width (el_rect el) < 44 \<or> rect_height (el_rect el) < 44)) els)"
proof (induction els arbitrary: r)
  case Nil
  show ?case by simp
next
  case (Cons el els)
  show ?case
    by (simp only: foldl_Cons Cons.IH inspectElement_count) simp
qed

lemma inspectPage_issues:
  "res_issues (inspectPage pg) =
     (if pg_innerWidth pg < pg_scrollWidth pg then [pageLevelIssue pg (initialResults pg)] else [])
     @ res_issues (foldl (inspectElement (pg_innerWidth pg)) (initialResults pg) (pg_elements pg))"
proof -
  have "pageLevelIssue pg (foldl (inspectElement (pg_innerWidth pg)) (initialResults pg) (pg_elements pg))
      = pageLevelIssue pg (initialResults pg)"
    by (simp add: pageLevelIssue_def scanned_fields initialResults_fields)
  then show ?thesis
    by (simp add: inspectPage_def Let_def scanned_fields)
qed

lemma inspectPage_count:
  "res_smallTouchTargets (inspectPage pg) =
     res_smallTouchTargets (foldl (inspectElement (pg_innerWidth pg)) (initialResults pg) (pg_elements pg))"
  by (simp add: inspectPage_def Let_def)

lemma pass_overflow:
  "map (\<lambda>i. (severity i, map_option info_rect (element i)))
     (filter (\<lambda>i. type i = HorizontalOverflow \<and> \<not> isPageLevel i) (issues (analyzeViewport pg vp)))
   = map (\<lambda>el. (if 50 < rect_right (el_rect el) - of_int (pg_innerWidth pg) then High else Medium,
                 Some (info_rect (getElementInfo el))))
       (filter (\<lambda>el. \<not> isInvisible el \<and> of_int (pg_innerWidth pg) + 5 < rect_right (el_rect el))
          (pg_elements pg))"
proof -
  let ?HO = "\<lambda>i. raw_type i = HorizontalOverflow
                \<and> \<not> prefix ''Page has horizontal scrollbar'' (raw_description i)"
  let ?q = "\<lambda>i. (raw_severity i, Some (info_rect (raw_element i)))"
  have conv: "map (\<lambda>i. (severity i, map_option info_rect (element i)))
       (filter (\<lambda>i. type i = HorizontalOverflow \<and> \<not> isPageLevel i) (map (toDOMIssue vp) xs))
      = map ?q (filter ?HO xs)" for xs
    by (induction xs) (auto simp: isPageLevel_toDOMIssue, simp_all add: toDOMIssue_def)
  have page: "\<not> ?HO (pageLevelIssue pg (initialResults pg))"
    by (simp add: pageLevelIssue_fields)
  have init: "filter ?HO (res_issues (initialResults pg)) = []"
    by (simp add: initialResults_fields)
  have "issues (analyzeViewport pg vp) = map (toDOMIssue vp) (res_issues (inspectPage pg))"
    by (simp add: analyzeViewport_def Let_def)
  then have "map (\<lambda>i. (severity i, map_option info_rect (element i)))
     (filter (\<lambda>i. type i = HorizontalOverflow \<and> \<not> isPageLevel i) (issues (analyzeViewport pg vp)))
     = map ?q (filter ?HO (res_issues (inspectPage pg)))"
    by (simp only: conv)
  also have "\<dots> = map ?q (filter ?HO
      (res_issues (foldl (inspectElement (pg_innerWidth pg)) (initialResults pg) (pg_elements pg))))"
    unfolding inspectPage_issues using page by simp
  also have "\<dots> = map (\<lambda>el. (if 50 < rect_right (el_rect el) - of_int (pg_innerWidth pg) then High else Medium,
                 Some (info_rect (getElementInfo el))))
       (filter (\<lambda>el. \<not> isInvisible el \<and> of_int (pg_innerWidth pg) + 5 < rect_right (el_rect el))
          (pg_elements pg))"
    unfolding scan_overflow init by simp
  finally show ?thesis .
qed

lemma pass_touch:
  "map (\<lambda>i. (severity i, map_option info_rect (element i)))
     (filter (\<lambda>i. type i = TouchTarget) (issues (analyzeViewport pg vp)))
   = map (\<lambda>el. (Medium, Some (info_rect (getElementInfo el))))
       (filter (\<lambda>el. \<not> isInvisible el \<and> isInteractive el
             \<and> (rect_width (el_rect el) < 30 \<or> rect_height (el_rect el) < 30))
          (pg_elements pg))"
proof -
  let ?TT = "\<lambda>i. raw_type i = TouchTarget"
  let ?q = "\<lambda>i. (raw_severity i, Some (info_rect (raw_element i)))"
  have conv: "map (\<lambda>i. (severity i, map_option info_rect (element i)))
       (filter (\<lambda>i. type i = TouchTarget) (map (toDOMIssue vp) xs))
      = map ?q (filter ?TT xs)" for xs
    by (induction xs) (simp_all add: toDOMIssue_def)
  have page: "\<not> ?TT (pageLevelIssue pg (initialResults pg))"
    by (simp add: pageLevelIssue_fields)
  have init: "filter ?TT (res_issues (initialResults pg)) = []"
    by (simp add: initialResults_fields)
  have "issues (analyzeViewport pg vp) = map (toDOMIssue vp) (res_issues (inspectPage pg))"
    by (simp add: analyzeViewport_def Let_def)
  then have "map (\<lambda>i. (severity i, map_option info_rect (element i)))
     (filter (\<lambda>i. type i = TouchTarget) (issues (analyzeViewport pg vp)))
     = map ?q (filter ?TT (res_issues (inspectPage pg)))"
    by (simp only: conv)
  also have "\<dots> = map ?q (filter ?TT
      (res_issues (foldl (inspectElement (pg_innerWidth pg)) (initialResults pg) (pg_elements pg))))"
    unfolding inspectPage_issues using page by simp
  also have "\<dots> = map (\<lambda>el. (Medium, Some (info_rect (getElementInfo el))))
       (filter (\<lambda>el. \<not> isInvisible el \<and> isInteractive el
             \<and> (rect_width (el_rect el) < 30 \<or> rect_height (el_rect el) < 30))
          (pg_elements pg))"
    unfolding scan_touch init by simp
  finally show ?thesis .
qed

lemma pass_count:
  "smallTouchTargets (metrics (analyzeViewport pg vp)) =
     length (filter (\<lambda>el. \<not> isInvisible el \<and> isInteractive el
             \<and> (rect_width (el_rect el) < 44 \<or> rect_height (el_rect el) < 44)) (pg_elements pg))"
  by (simp add: analyzeViewport_def Let_def inspectPage_count scan_count initialResults_fields)

lemma length_filter_split:
  assumes "\<And>x. A x \<longleftrightarrow> B x \<or> C x" "\<And>x. \<not> (B x \<and> C x)"
  shows "length (filter A xs) = length (filter B xs) + length (filter C xs)"
  using assms by (induction xs) auto

section \<open>Readings of a description\<close>

lemma digits_then_px:
  "isDigit c \<Longrightarrow> take 2 (dropWhile isDigit t) = ''px'' \<Longrightarrow> hasPxLiteral (c # t)"
proof (induction t arbitrary: c)
  case Nil
  then show ?case by simp
next
  case (Cons a t)
  show ?case
  proof (cases "isDigit a")
    case True
    with Cons.prems have "take 2 (dropWhile isDigit t) = ''px''"
      by simp
    with True have "hasPxLiteral (a # t)"
      by (rule Cons.IH)
    then show ?thesis by simp
  next
    case False
    with Cons.prems have "take 2 (a # t) = ''px''"
      by simp
    with Cons.prems(1) show ?thesis by simp
  qed
qed

lemma normalizePx_kept: "\<not> hasPxLiteral t \<Longrightarrow> normalizePx t = t"
proof (induction t)
  case Nil
  show ?case by simp
next
  case (Cons c t)
  have no: "\<not> (isDigit c \<and> take 2 (dropWhile isDigit t) = ''px'')"
    using Cons.prems digits_then_px [of c t] by blast
  have "normalizePx (c # t) = c # normalizePx t"
    by (subst normalizePx.simps) (rule if_not_P [OF no])
  moreover have "\<not> hasPxLiteral t"
    using Cons.prems by simp
  ultimately show ?case
    using Cons.IH by simp
qed

lemma digits_then_px_across:
  assumes "isDigit c" "take 2 (dropWhile isDigit (t @ u)) = ''px''"
    and "u = [] \<or> isDigit (hd u)" "\<not> isDigit (last (c # t))"
  shows "hasPxLiteral (c # t)"
  using assms
proof (induction t arbitrary: c)
  case Nil
  then show ?case by simp
next
  case (Cons a t)
  show ?case
  proof (cases "isDigit a")
    case True
    have "hasPxLiteral (a # t)"
    proof (rule Cons.IH [OF True])
      show "take 2 (dropWhile isDigit (t @ u)) = ''px''"
        using Cons.prems(2) True by simp
      show "u = [] \<or> isDigit (hd u)"
        by (rule Cons.prems(3))
      show "\<not> isDigit (last (a # t))"
        using Cons.prems(4) by simp
    qed
    then show ?thesis by simp
  next
    case False
    with Cons.prems(2) have px: "take 2 (a # t @ u) = ''px''"
      by simp
    have "t \<noteq> []"
    proof
      assume "t = []"
      with px have "u \<noteq> [] \<and> hd u = CHR ''x''"
        by (cases u) auto
      with Cons.prems(3) show False
        by (auto simp: isDigit_def)
    qed
    with px have "take 2 (a # t) = ''px''"
      by (cases t) auto
    with Cons.prems(1) show ?thesis by simp
  qed
qed

lemma normalizePx_kept_before:
  assumes "\<not> hasPxLiteral t" "t = [] \<or> \<not> isDigit (last t)" "u = [] \<or> isDigit (hd u)"
  shows "normalizePx (t @ u) = t @ normalizePx u"
  using assms
proof (induction t)
  case Nil
  show ?case by simp
next
  case (Cons c t)
  have last: "\<not> isDigit (last (c # t))"
    using Cons.prems(2) by simp
  have no: "\<not> (isDigit c \<and> take 2 (dropWhile isDigit (t @ u)) = ''px'')"
    using Cons.prems(1) digits_then_px_across [OF _ _ Cons.prems(3) last] by blast
  have step: "normalizePx ((c # t) @ u) = c # normalizePx (t @ u)"
    unfolding append_Cons
    by (subst normalizePx.simps) (rule if_not_P [OF no])
  have "normalizePx (t @ u) = t @ normalizePx u"
  proof (rule Cons.IH)
    show "\<not> hasPxLiteral t"
      using Cons.prems(1) by simp
    show "t = [] \<or> \<not> isDigit (last t)"
      using last by (cases t) auto
    show "u = [] \<or> isDigit (hd u)"
      by (rule Cons.prems(3))
  qed
  with step show ?case by simp
qed

lemma normalizePx_literal:
  assumes "d \<noteq> []" "list_all isDigit d"
  shows "normalizePx (d @ ''px'' @ rest) = ''Npx'' @ normalizePx rest"
proof -
  from assms obtain c d' where d: "d = c # d'"
    by (cases d) auto
  have c: "isDigit c" and d': "\<forall>x\<in>set d'. isDigit x"
    using assms(2) d by (simp_all add: list_all_iff)
  have drop: "dropWhile isDigit (d' @ ''px'' @ rest) = ''px'' @ rest"
    using d' by (simp add: dropWhile_append2 isDigit_def)
  have yes: "isDigit c \<and> take 2 (dropWhile isDigit (d' @ ''px'' @ rest)) = ''px''"
    using c by (simp only: drop) simp
  have "normalizePx (c # (d' @ ''px'' @ rest)) =
      ''Npx'' @ normalizePx (drop 2 (dropWhile isDigit (d' @ ''px'' @ rest)))"
    by (subst normalizePx.simps) (rule if_P [OF yes])
  then have "normalizePx (c # (d' @ ''px'' @ rest)) = ''Npx'' @ normalizePx (drop 2 (''px'' @ rest))"
    unfolding drop .
  moreover have "drop 2 (''px'' @ rest) = rest"
    by simp
  moreover have "d @ ''px'' @ rest = c # (d' @ ''px'' @ rest)"
    by (simp add: d)
  ultimately show ?thesis
    by (simp only:)
qed

lemma normalizePx_reading:
  "properReading t ps \<Longrightarrow> normalizePx (original t ps) = replaced t ps"
proof (induction t ps rule: original.induct)
  case (1 t)
  then show ?case by (simp add: normalizePx_kept)
next
  case (2 t d t' ps)
  from "2.prems" have p: "\<not> hasPxLiteral t" "t = [] \<or> \<not> isDigit (last t)" "d \<noteq> []"
    "list_all isDigit d" "properReading t' ps"
    by simp_all
  have "isDigit (hd (d @ ''px'' @ original t' ps))"
    using p(3,4) by (cases d) simp_all
  then have "normalizePx (t @ d @ ''px'' @ original t' ps)
      = t @ normalizePx (d @ ''px'' @ original t' ps)"
    using p(1,2) by (intro normalizePx_kept_before) simp_all
  also have "\<dots> = t @ ''Npx'' @ normalizePx (original t' ps)"
    by (simp only: normalizePx_literal [OF p(3,4)])
  also have "\<dots> = t @ ''Npx'' @ replaced t' ps"
    by (simp only: "2.IH" [OF p(5)])
  finally show ?case by simp
qed


lemma reading_exists: "\<exists>t ps. properReading t ps \<and> original t ps = s"
proof (induction s rule: normalizePx.induct)
  case 1
  have "properReading [] [] \<and> original [] [] = []"
    by simp
  then show ?case by blast
next
  case (2 c cs)
  show ?case
  proof (cases "isDigit c \<and> take 2 (dropWhile isDigit cs) = ''px''")
    case True
    from "2.IH"(1) [OF True] obtain t' ps' where r: "properReading t' ps'"
      "original t' ps' = drop 2 (dropWhile isDigit cs)"
      by blast
    let ?d = "c # takeWhile isDigit cs"
    have digits: "list_all isDigit ?d"
      using True by (simp add: list_all_iff) (meson set_takeWhileD)
    have "dropWhile isDigit cs = ''px'' @ drop 2 (dropWhile isDigit cs)"
      using True append_take_drop_id [of 2 "dropWhile isDigit cs"] by simp
    then have "cs = takeWhile isDigit cs @ ''px'' @ drop 2 (dropWhile isDigit cs)"
      using takeWhile_dropWhile_id [of isDigit cs] by simp
    then have "original [] ((?d, t') # ps') = c # cs"
      using r(2) by simp
    moreover have "properReading [] ((?d, t') # ps')"
      using r(1) digits by simp
    ultimately show ?thesis by blast
  next
    case False
    from "2.IH"(2) [OF False] obtain t' ps' where r: "properReading t' ps'"
      "original t' ps' = cs"
      by blast
    have nolit: "\<not> hasPxLiteral t'"
    proof (cases ps')
      case Nil
      with r(1) show ?thesis by simp
    next
      case (Cons p ps'')
      obtain d t'' where "p = (d, t'')"
        by (cases p)
      with r(1) Cons show ?thesis by simp
    qed
    have head: "\<not> (isDigit c \<and> take 2 t' = ''px'')"
    proof
      assume a: "isDigit c \<and> take 2 t' = ''px''"
      then obtain rest where t': "t' = CHR ''p'' # CHR ''x'' # rest"
        by (cases t'; cases "tl t'") (auto split: if_splits)
      have "\<exists>rest2. cs = CHR ''p'' # CHR ''x'' # rest2"
      proof (cases ps')
        case Nil
        with r(2) t' show ?thesis by auto
      next
        case (Cons p ps'')
        obtain d t'' where "p = (d, t'')"
          by (cases p)
        with r(2) t' Cons show ?thesis by auto
      qed
      then obtain rest2 where "cs = CHR ''p'' # CHR ''x'' # rest2"
        by blast
      then have "take 2 (dropWhile isDigit cs) = ''px''"
        by (simp add: isDigit_def)
      with a False show False by blast
    qed
    have kept: "\<not> hasPxLiteral (c # t')"
      using nolit head by simp
    have "properReading (c # t') ps'"
    proof (cases ps')
      case Nil
      with kept show ?thesis by simp
    next
      case (Cons p ps'')
      obtain d t'' where p: "p = (d, t'')"
        by (cases p)
      from r(1) Cons p have w: "t' = [] \<or> \<not> isDigit (last t')" "d \<noteq> []" "list_all isDigit d"
        "properReading t'' ps''"
        by simp_all
      have "\<not> isDigit (last (c # t'))"
      proof (cases "t' = []")
        case False
        with w(1) show ?thesis by simp
      next
        case True
        have "\<not> isDigit c"
        proof
          assume c: "isDigit c"
          have cs: "cs = d @ ''px'' @ original t'' ps''"
            using r(2) True Cons p by simp
          have "\<forall>x\<in>set d. isDigit x"
            using w(3) by (simp add: list_all_iff)
          then have "dropWhile isDigit cs = ''px'' @ original t'' ps''"
            unfolding cs by (simp add: dropWhile_append2 isDigit_def)
          then have "take 2 (dropWhile isDigit cs) = ''px''"
            by simp
          with c \<open>\<not> (isDigit c \<and> take 2 (dropWhile isDigit cs) = ''px'')\<close> show False
            by blast
        qed
        with True show ?thesis by simp
      qed
      with kept w Cons p show ?thesis by simp
    qed
    moreover have "original (c # t') ps' = c # cs"
    proof (cases ps')
      case Nil
      with r(2) show ?thesis by simp
    next
      case (Cons p ps'')
      obtain d t'' where "p = (d, t'')"
        by (cases p)
      with r(2) Cons show ?thesis by simp
    qed
    ultimately show ?thesis by blast
  qed
qed

section \<open>The breakpoint classifier\<close>

text \<open>
  Claim C7. For every width \<open>w\<close> (every rational, so every non-negative integer),
  \<open>getTailwindBreakpoint w\<close> is \<open>default (mobile)\<close> when \<open>w < 640\<close>, \<open>sm\<close> when
  \<open>640 \<le> w < 768\<close>, \<open>md\<close> when \<open>768 \<le> w < 1024\<close>, \<open>lg\<close> when
  \<open>1024 \<le> w < 1280\<close>, \<open>xl\<close> when \<open>1280 \<le> w < 1536\<close> and \<open>2xl\<close> otherwise;
  the boundary values 640, 768, 1024, 1280 and 1536 belong to the upper band. The
  function is a total function of its argument alone.
\<close>

theorem getTailwindBreakpoint_bands:
  "(w < 640 \<longrightarrow> getTailwindBreakpoint w = ''default (mobile)'')
   \<and> (640 \<le> w \<and> w < 768 \<longrightarrow> getTailwindBreakpoint w = ''sm'')
   \<and> (768 \<le> w \<and> w < 1024 \<longrightarrow> getTailwindBreakpoint w = ''md'')
   \<and> (1024 \<le> w \<and> w < 1280 \<longrightarrow> getTailwindBreakpoint w = ''lg'')
   \<and> (1280 \<le> w \<and> w < 1536 \<longrightarrow> getTailwindBreakpoint w = ''xl'')
   \<and> (1536 \<le> w \<longrightarrow> getTailwindBreakpoint w = ''2xl'')
   \<and> getTailwindBreakpoint 640 = ''sm''
   \<and> getTailwindBreakpoint 768 = ''md''
   \<and> getTailwindBreakpoint 1024 = ''lg''
   \<and> getTailwindBreakpoint 1280 = ''xl''
   \<and> getTailwindBreakpoint 1536 = ''2xl''"
  by (simp add: getTailwindBreakpoint_def)

theorem getTailwindBreakpoint_bands_witness:
  "getTailwindBreakpoint 0 = ''default (mobile)''
   \<and> getTailwindBreakpoint 639 = ''default (mobile)''
   \<and> getTailwindBreakpoint 700 = ''sm''
   \<and> getTailwindBreakpoint 1000 = ''md''
   \<and> getTailwindBreakpoint 1279 = ''lg''
   \<and> getTailwindBreakpoint 1535 = ''xl''
   \<and> getTailwindBreakpoint 2560 = ''2xl''"
  using getTailwindBreakpoint_bands [of 0] getTailwindBreakpoint_bands [of 639]
    getTailwindBreakpoint_bands [of 700] getTailwindBreakpoint_bands [of 1000]
    getTailwindBreakpoint_bands [of 1279] getTailwindBreakpoint_bands [of 1535]
    getTailwindBreakpoint_bands [of 2560]
  by simp

section \<open>The viewport pass\<close>

text \<open>
  Claim C3. In every viewport pass, if the scroll width of the document exceeds the
  viewport width (\<open>window.innerWidth\<close>), the issue sequence of the pass starts with the
  page-level horizontal-overflow observation, of severity high, whose description cites
  both widths, and no later entry is a page-level observation (so there is exactly one);
  if the scroll width does not exceed the viewport width, no entry is a page-level
  observation.
\<close>

theorem page_level_overflow_first:
  "(pg_innerWidth pg < pg_scrollWidth pg \<longrightarrow>
      (\<exists>p rest. issues (analyzeViewport pg vp) = p # rest
         \<and> isPageLevel p \<and> type p = HorizontalOverflow \<and> severity p = High
         \<and> description p = ''Page has horizontal scrollbar (document: ''
              @ showInt (pg_scrollWidth pg) @ ''px, viewport: ''
              @ showInt (pg_innerWidth pg) @ ''px)''
         \<and> (\<forall>i\<in>set rest. \<not> isPageLevel i)))
   \<and> (\<not> pg_innerWidth pg < pg_scrollWidth pg \<longrightarrow>
      (\<forall>i\<in>set (issues (analyzeViewport pg vp)). \<not> isPageLevel i))"
proof -
  obtain new where new:
    "res_issues (inspectPage pg) =
       (if pg_innerWidth pg < pg_scrollWidth pg then [pageLevelIssue pg (initialResults pg)] else []) @ new"
    "\<forall>i\<in>set new. \<not> prefix ''Page has horizontal scrollbar'' (raw_description i)"
    using inspectPage_results [of pg] by blast
  have iss: "issues (analyzeViewport pg vp) = map (toDOMIssue vp) (res_issues (inspectPage pg))"
    by (simp add: analyzeViewport_def Let_def)
  have rest: "\<forall>i\<in>set (map (toDOMIssue vp) new). \<not> isPageLevel i"
    using new(2) by (simp add: isPageLevel_toDOMIssue)
  show ?thesis
  proof (cases "pg_innerWidth pg < pg_scrollWidth pg")
    case True
    let ?p = "toDOMIssue vp (pageLevelIssue pg (initialResults pg))"
    have "issues (analyzeViewport pg vp) = ?p # map (toDOMIssue vp) new"
      using True new(1) iss by simp
    moreover have "isPageLevel ?p"
      by (simp add: isPageLevel_toDOMIssue pageLevelIssue_fields)
    moreover have "type ?p = HorizontalOverflow" "severity ?p = High"
      by (simp_all add: toDOMIssue_def pageLevelIssue_fields)
    moreover have "description ?p = ''Page has horizontal scrollbar (document: ''
              @ showInt (pg_scrollWidth pg) @ ''px, viewport: ''
              @ showInt (pg_innerWidth pg) @ ''px)''"
      by (simp add: toDOMIssue_def pageLevelIssue_fields initialResults_fields)
    ultimately show ?thesis
      using True rest by blast
  next
    case False
    then have "issues (analyzeViewport pg vp) = map (toDOMIssue vp) new"
      using new(1) iss by simp
    then show ?thesis
      using False rest by simp
  qed
qed

theorem page_level_overflow_first_witness:
  "pg_innerWidth scrollingPage < pg_scrollWidth scrollingPage
   \<and> (\<exists>p rest. issues (analyzeViewport scrollingPage iPhone8) = p # rest
         \<and> isPageLevel p \<and> type p = HorizontalOverflow \<and> severity p = High
         \<and> description p = ''Page has horizontal scrollbar (document: 900px, viewport: 375px)''
         \<and> (\<forall>i\<in>set rest. \<not> isPageLevel i))
   \<and> \<not> pg_innerWidth fittingPage < pg_scrollWidth fittingPage
   \<and> issues (analyzeViewport fittingPage iPhone8) \<noteq> []
   \<and> filter isPageLevel (issues (analyzeViewport fittingPage iPhone8)) = []"
proof -
  have n: "issues (analyzeViewport fittingPage iPhone8) \<noteq> []"
    by code_simp
  have a: "pg_innerWidth scrollingPage < pg_scrollWidth scrollingPage"
    by (simp add: scrollingPage_def)
  have b: "\<not> pg_innerWidth fittingPage < pg_scrollWidth fittingPage"
    by (simp add: fittingPage_def)
  have w: "showInt (pg_scrollWidth scrollingPage) = ''900''"
    "showInt (pg_innerWidth scrollingPage) = ''375''"
    by code_simp+
  show ?thesis
    using a b n page_level_overflow_first [of scrollingPage iPhone8]
      page_level_overflow_first [of fittingPage iPhone8]
    by (simp add: w filter_none)
qed

text \<open>
  Claim C5. In every viewport pass, the element-level horizontal-overflow observations of
  the pass (those other than the page-level one) are, in document order, one for each
  visible element whose right edge exceeds the viewport width by more than 5px and none
  for any other element; the observation of such an element has severity high when the
  excess is more than 50px and medium otherwise, and carries the rectangle of that
  element. In the loop body, for any state of the results, a visible element adds one
  such observation of that severity when its right edge exceeds the viewport width by
  more than 5px and none otherwise.
\<close>

theorem element_overflow_threshold:
  "map (\<lambda>i. (severity i, map_option info_rect (element i)))
     (filter (\<lambda>i. type i = HorizontalOverflow \<and> \<not> isPageLevel i) (issues (analyzeViewport pg vp)))
   = map (\<lambda>el. (if 50 < rect_right (el_rect el) - of_int (pg_innerWidth pg) then High else Medium,
                 Some (info_rect (getElementInfo el))))
       (filter (\<lambda>el. \<not> isInvisible el \<and> of_int (pg_innerWidth pg) + 5 < rect_right (el_rect el))
          (pg_elements pg))
   \<and> (\<not> isInvisible el \<longrightarrow>
       (\<exists>new. res_issues (inspectElement w r el) = res_issues r @ new
          \<and> map raw_severity (filter (\<lambda>i. raw_type i = HorizontalOverflow) new) =
              (if rect_right (el_rect el) > of_int w + 5
               then [if rect_right (el_rect el) - of_int w > 50 then High else Medium] else [])))"
  using pass_overflow [of pg vp] visible_element_overflow [of el w r] by blast

theorem element_overflow_threshold_witness:
  "map (\<lambda>i. (severity i, map_option info_rect (element i)))
     (filter (\<lambda>i. type i = HorizontalOverflow \<and> \<not> isPageLevel i)
        (issues (analyzeViewport scrollingPage iPhone8)))
   = [(High, Some \<lparr>rect_x = 0, rect_y = 0, rect_width = 455, rect_height = 120\<rparr>)]
   \<and> \<not> isInvisible overflowingDiv
   \<and> (\<exists>new. res_issues (inspectElement 375 (initialResults scrollingPage) overflowingDiv) =
          res_issues (initialResults scrollingPage) @ new
        \<and> map raw_severity (filter (\<lambda>i. raw_type i = HorizontalOverflow) new) = [High])"
proof -
  have v: "\<not> isInvisible overflowingDiv"
    by (simp add: isInvisible_def overflowingDiv_def)
  have r: "rect_right (el_rect overflowingDiv) = 455"
    by (simp add: overflowingDiv_def)
  have e: "map (\<lambda>el. (if 50 < rect_right (el_rect el) - of_int (pg_innerWidth scrollingPage)
                        then High else Medium,
                 Some (info_rect (getElementInfo el))))
       (filter (\<lambda>el. \<not> isInvisible el
                  \<and> of_int (pg_innerWidth scrollingPage) + 5 < rect_right (el_rect el))
          (pg_elements scrollingPage))
      = [(High, Some \<lparr>rect_x = 0, rect_y = 0, rect_width = 455, rect_height = 120\<rparr>)]"
    by code_simp
  note t = element_overflow_threshold [of scrollingPage iPhone8 overflowingDiv 375
      "initialResults scrollingPage"]
  have a: "map (\<lambda>i. (severity i, map_option info_rect (element i)))
     (filter (\<lambda>i. type i = HorizontalOverflow \<and> \<not> isPageLevel i)
        (issues (analyzeViewport scrollingPage iPhone8)))
   = [(High, Some \<lparr>rect_x = 0, rect_y = 0, rect_width = 455, rect_height = 120\<rparr>)]"
    using t e by simp
  have b: "\<exists>new. res_issues (inspectElement 375 (initialResults scrollingPage) overflowingDiv) =
          res_issues (initialResults scrollingPage) @ new
        \<and> map raw_severity (filter (\<lambda>i. raw_type i = HorizontalOverflow) new) = [High]"
    using t v by (simp add: r)
  from a v b show ?thesis by blast
qed

text \<open>
  Claim C6. In every viewport pass, \<open>smallTouchTargets\<close> is the number of visible
  interactive elements whose width or height is below 44px; the touch-target observations
  of the pass are, in document order, one for each visible interactive element whose width
  or height is below 30px and none for any other element, each of severity medium and
  carrying the rectangle of that element; so \<open>smallTouchTargets\<close> is the number of
  touch-target observations plus the number of visible interactive elements whose smaller
  dimension lies in [30px, 44px), which are counted and produce no observation. In the
  loop body, for any state of the results, a visible element raises the counter by one
  exactly when it is interactive with width or height below 44px and adds a touch-target
  observation, of severity medium, exactly when it is interactive with width or height
  below 30px.
\<close>

theorem touch_target_thresholds:
  "smallTouchTargets (metrics (analyzeViewport pg vp)) =
     length (filter (\<lambda>el. \<not> isInvisible el \<and> isInteractive el
             \<and> (rect_width (el_rect el) < 44 \<or> rect_height (el_rect el) < 44)) (pg_elements pg))
   \<and> map (\<lambda>i. (severity i, map_option info_rect (element i)))
       (filter (\<lambda>i. type i = TouchTarget) (issues (analyzeViewport pg vp)))
     = map (\<lambda>el. (Medium, Some (info_rect (getElementInfo el))))
         (filter (\<lambda>el. \<not> isInvisible el \<and> isInteractive el
               \<and> (rect_width (el_rect el) < 30 \<or> rect_height (el_rect el) < 30))
            (pg_elements pg))
   \<and> smallTouchTargets (metrics (analyzeViewport pg vp)) =
       length (filter (\<lambda>i. type i = TouchTarget) (issues (analyzeViewport pg vp)))
       + length (filter (\<lambda>el. \<not> isInvisible el \<and> isInteractive el
             \<and> 30 \<le> min (rect_width (el_rect el)) (rect_height (el_rect el))
             \<and> min (rect_width (el_rect el)) (rect_height (el_rect el)) < 44) (pg_elements pg))
   \<and> (\<not> isInvisible el \<longrightarrow>
      (\<exists>new. res_issues (inspectElement w r el) = res_issues r @ new
         \<and> res_smallTouchTargets (inspectElement w r el) = res_smallTouchTargets r +
             (if isInteractive el \<and> (rect_width (el_rect el) < 44 \<or> rect_height (el_rect el) < 44)
              then 1 else 0)
         \<and> map raw_severity (filter (\<lambda>i. raw_type i = TouchTarget) new) =
             (if isInteractive el \<and> (rect_width (el_rect el) < 30 \<or> rect_height (el_rect el) < 30)
              then [Medium] else [])
         \<and> (isInteractive el \<and> 30 \<le> min (rect_width (el_rect el)) (rect_height (el_rect el))
              \<and> min (rect_width (el_rect el)) (rect_height (el_rect el)) < 44 \<longrightarrow>
             res_smallTouchTargets (inspectElement w r el) = res_smallTouchTargets r + 1
             \<and> filter (\<lambda>i. raw_type i = TouchTarget) new = [])))"
proof -
  let ?A = "\<lambda>el. \<not> isInvisible el \<and> isInteractive el
             \<and> (rect_width (el_rect el) < 44 \<or> rect_height (el_rect el) < 44)"
  let ?B = "\<lambda>el. \<not> isInvisible el \<and> isInteractive el
               \<and> (rect_width (el_rect el) < 30 \<or> rect_height (el_rect el) < 30)"
  let ?C = "\<lambda>el. \<not> isInvisible el \<and> isInteractive el
             \<and> 30 \<le> min (rect_width (el_rect el)) (rect_height (el_rect el))
             \<and> min (rect_width (el_rect el)) (rect_height (el_rect el)) < 44"
  have cnt: "smallTouchTargets (metrics (analyzeViewport pg vp)) = length (filter ?A (pg_elements pg))"
    by (rule pass_count)
  have obs: "map (\<lambda>i. (severity i, map_option info_rect (element i)))
       (filter (\<lambda>i. type i = TouchTarget) (issues (analyzeViewport pg vp)))
     = map (\<lambda>el. (Medium, Some (info_rect (getElementInfo el)))) (filter ?B (pg_elements pg))"
    by (rule pass_touch)
  have "length (map (\<lambda>i. (severity i, map_option info_rect (element i)))
       (filter (\<lambda>i. type i = TouchTarget) (issues (analyzeViewport pg vp))))
     = length (map (\<lambda>el. (Medium :: severity, Some (info_rect (getElementInfo el))))
         (filter ?B (pg_elements pg)))"
    by (simp only: obs)
  then have n: "length (filter (\<lambda>i. type i = TouchTarget) (issues (analyzeViewport pg vp)))
      = length (filter ?B (pg_elements pg))"
    by (simp only: length_map)
  have "length (filter ?A (pg_elements pg))
      = length (filter ?B (pg_elements pg)) + length (filter ?C (pg_elements pg))"
    by (rule length_filter_split) (auto simp: min_def)
  with cnt n have band: "smallTouchTargets (metrics (analyzeViewport pg vp)) =
       length (filter (\<lambda>i. type i = TouchTarget) (issues (analyzeViewport pg vp)))
       + length (filter ?C (pg_elements pg))"
    by simp
  from cnt obs band visible_element_touch [of el w r] show ?thesis
    by blast
qed

theorem touch_target_thresholds_witness:
  "smallTouchTargets (metrics (analyzeViewport scrollingPage iPhone8)) = 2
   \<and> map (\<lambda>i. (severity i, map_option info_rect (element i)))
       (filter (\<lambda>i. type i = TouchTarget) (issues (analyzeViewport scrollingPage iPhone8)))
     = [(Medium, Some \<lparr>rect_x = 10, rect_y = 200, rect_width = 20, rect_height = 20\<rparr>)]
   \<and> \<not> isInvisible borderlineButton \<and> isInteractive borderlineButton
   \<and> 30 \<le> min (rect_width (el_rect borderlineButton)) (rect_height (el_rect borderlineButton))
   \<and> min (rect_width (el_rect borderlineButton)) (rect_height (el_rect borderlineButton)) < 44
   \<and> (\<exists>new. res_issues (inspectElement 375 (initialResults fittingPage) borderlineButton) =
          res_issues (initialResults fittingPage) @ new
        \<and> res_smallTouchTargets (inspectElement 375 (initialResults fittingPage) borderlineButton) =
            res_smallTouchTargets (initialResults fittingPage) + 1
        \<and> filter (\<lambda>i. raw_type i = TouchTarget) new = [])"
proof -
  have v: "\<not> isInvisible borderlineButton"
    by (simp add: isInvisible_def borderlineButton_def)
  have i: "isInteractive borderlineButton"
    by code_simp
  have d: "rect_width (el_rect borderlineButton) = 36" "rect_height (el_rect borderlineButton) = 36"
    by (simp_all add: borderlineButton_def)
  have e1: "length (filter (\<lambda>el. \<not> isInvisible el \<and> isInteractive el
             \<and> (rect_width (el_rect el) < 44 \<or> rect_height (el_rect el) < 44))
               (pg_elements scrollingPage)) = 2"
    by code_simp
  have e2: "map (\<lambda>el. (Medium, Some (info_rect (getElementInfo el))))
         (filter (\<lambda>el. \<not> isInvisible el \<and> isInteractive el
               \<and> (rect_width (el_rect el) < 30 \<or> rect_height (el_rect el) < 30))
            (pg_elements scrollingPage))
      = [(Medium, Some \<lparr>rect_x = 10, rect_y = 200, rect_width = 20, rect_height = 20\<rparr>)]"
    by code_simp
  note t = touch_target_thresholds [of scrollingPage iPhone8 borderlineButton 375
      "initialResults fittingPage"]
  have a: "smallTouchTargets (metrics (analyzeViewport scrollingPage iPhone8)) = 2"
    using t e1 by simp
  have b: "map (\<lambda>i. (severity i, map_option info_rect (element i)))
       (filter (\<lambda>i. type i = TouchTarget) (issues (analyzeViewport scrollingPage iPhone8)))
     = [(Medium, Some \<lparr>rect_x = 10, rect_y = 200, rect_width = 20, rect_height = 20\<rparr>)]"
    using t e2 by simp
  have c: "\<exists>new. res_issues (inspectElement 375 (initialResults fittingPage) borderlineButton) =
          res_issues (initialResults fittingPage) @ new
        \<and> res_smallTouchTargets (inspectElement 375 (initialResults fittingPage) borderlineButton) =
            res_smallTouchTargets (initialResults fittingPage) + 1
        \<and> filter (\<lambda>i. raw_type i = TouchTarget) new = []"
    using t v i by (simp add: d) blast
  from a b c v i show ?thesis
    by (simp add: d)
qed

text \<open>
  Claim C10. In every viewport analysis the metrics agree with the issue list:
  \<open>hasHorizontalScroll\<close> holds exactly when \<open>documentWidth\<close> exceeds
  \<open>viewportWidth\<close>, and exactly when a page-level horizontal-overflow observation with
  selector \<open>body\<close> is among the issues, and then it is the first issue;
  \<open>overflowingElements\<close> is the number of horizontal-overflow observations other than
  the page-level one; \<open>truncatedText\<close> is the number of text-overflow observations; and
  \<open>smallTouchTargets\<close> is at least the number of touch-target observations.
\<close>

theorem metrics_agree_with_issues:
  "(hasHorizontalScroll (metrics (analyzeViewport pg vp)) \<longleftrightarrow>
      Metrics.viewportWidth (metrics (analyzeViewport pg vp)) < documentWidth (metrics (analyzeViewport pg vp)))
   \<and> (hasHorizontalScroll (metrics (analyzeViewport pg vp)) \<longleftrightarrow>
      (\<exists>i\<in>set (issues (analyzeViewport pg vp)). isPageLevel i \<and> selector i = ''body''))
   \<and> (hasHorizontalScroll (metrics (analyzeViewport pg vp)) \<longrightarrow>
      (\<exists>p rest. issues (analyzeViewport pg vp) = p # rest \<and> isPageLevel p \<and> selector p = ''body''))
   \<and> overflowingElements (metrics (analyzeViewport pg vp)) =
       length (filter (\<lambda>i. type i = HorizontalOverflow \<and> \<not> isPageLevel i) (issues (analyzeViewport pg vp)))
   \<and> truncatedText (metrics (analyzeViewport pg vp)) =
       length (filter (\<lambda>i. type i = TextOverflow) (issues (analyzeViewport pg vp)))
   \<and> length (filter (\<lambda>i. type i = TouchTarget) (issues (analyzeViewport pg vp)))
       \<le> smallTouchTargets (metrics (analyzeViewport pg vp))"
proof -
  obtain new where new:
    "res_issues (inspectPage pg) =
       (if pg_innerWidth pg < pg_scrollWidth pg then [pageLevelIssue pg (initialResults pg)] else []) @ new"
    "\<forall>i\<in>set new. \<not> prefix ''Page has horizontal scrollbar'' (raw_description i)"
    "res_overflowingElements (inspectPage pg) =
         length (filter (\<lambda>i. raw_type i = HorizontalOverflow) new)"
    "res_truncatedText (inspectPage pg) =
         length (filter (\<lambda>i. raw_type i = TextOverflow) new)"
    "length (filter (\<lambda>i. raw_type i = TouchTarget) new) \<le> res_smallTouchTargets (inspectPage pg)"
    using inspectPage_results [of pg] by blast
  let ?va = "analyzeViewport pg vp"
  let ?p = "toDOMIssue vp (pageLevelIssue pg (initialResults pg))"
  let ?rest = "map (toDOMIssue vp) new"
  have iss: "issues ?va =
      (if pg_innerWidth pg < pg_scrollWidth pg then [?p] else []) @ ?rest"
    using new(1) by (simp add: analyzeViewport_def Let_def)
  have m: "hasHorizontalScroll (metrics ?va) = (pg_innerWidth pg < pg_scrollWidth pg)"
    "documentWidth (metrics ?va) = pg_scrollWidth pg"
    "Metrics.viewportWidth (metrics ?va) = pg_innerWidth pg"
    "overflowingElements (metrics ?va) = res_overflowingElements (inspectPage pg)"
    "truncatedText (metrics ?va) = res_truncatedText (inspectPage pg)"
    "smallTouchTargets (metrics ?va) = res_smallTouchTargets (inspectPage pg)"
    by (simp_all add: analyzeViewport_def Let_def inspectPage_metrics)
  have p1: "isPageLevel ?p"
    by (simp add: isPageLevel_toDOMIssue pageLevelIssue_fields)
  have p2: "selector ?p = ''body''" "type ?p = HorizontalOverflow"
    by (simp_all add: pageLevelIssue_fields toDOMIssue_def)
  note p = p1 p2
  have rest: "\<forall>i\<in>set ?rest. \<not> isPageLevel i"
    using new(2) by (simp add: isPageLevel_toDOMIssue)
  have fHO: "filter (\<lambda>i. type i = HorizontalOverflow \<and> \<not> isPageLevel i) ?rest
      = map (toDOMIssue vp) (filter (\<lambda>i. raw_type i = HorizontalOverflow) new)"
    using new(2) by (induction new) (simp_all add: isPageLevel_toDOMIssue, simp_all add: toDOMIssue_def)
  have fTO: "filter (\<lambda>i. type i = TextOverflow) ?rest
      = map (toDOMIssue vp) (filter (\<lambda>i. raw_type i = TextOverflow) new)"
    by (induction new) (simp_all add: toDOMIssue_def)
  have fTT: "filter (\<lambda>i. type i = TouchTarget) ?rest
      = map (toDOMIssue vp) (filter (\<lambda>i. raw_type i = TouchTarget) new)"
    by (induction new) (simp_all add: toDOMIssue_def)
  have c1: "hasHorizontalScroll (metrics ?va) \<longleftrightarrow>
      Metrics.viewportWidth (metrics ?va) < documentWidth (metrics ?va)"
    by (simp add: m)
  have c2: "hasHorizontalScroll (metrics ?va) \<longleftrightarrow>
      (\<exists>i\<in>set (issues ?va). isPageLevel i \<and> selector i = ''body'')"
    unfolding m(1) iss using p rest by auto
  have c3: "hasHorizontalScroll (metrics ?va) \<longrightarrow>
      (\<exists>p rest. issues ?va = p # rest \<and> isPageLevel p \<and> selector p = ''body'')"
    unfolding m(1) iss using p by auto
  have c4: "overflowingElements (metrics ?va) =
       length (filter (\<lambda>i. type i = HorizontalOverflow \<and> \<not> isPageLevel i) (issues ?va))"
    unfolding m(4) iss using p fHO new(3) by simp
  have c5: "truncatedText (metrics ?va) = length (filter (\<lambda>i. type i = TextOverflow) (issues ?va))"
    unfolding m(5) iss using p fTO new(4) by simp
  have c6: "length (filter (\<lambda>i. type i = TouchTarget) (issues ?va)) \<le> smallTouchTargets (metrics ?va)"
    unfolding m(6) iss using p fTT new(5) by simp
  from c1 c2 c3 c4 c5 c6 show ?thesis by blast
qed

theorem metrics_agree_with_issues_witness:
  "hasHorizontalScroll (metrics (analyzeViewport scrollingPage iPhone8))
   \<and> (\<exists>p rest. issues (analyzeViewport scrollingPage iPhone8) = p # rest
         \<and> isPageLevel p \<and> selector p = ''body'')
   \<and> overflowingElements (metrics (analyzeViewport scrollingPage iPhone8)) = 1
   \<and> length (filter (\<lambda>i. type i = TouchTarget) (issues (analyzeViewport scrollingPage iPhone8))) = 1
   \<and> smallTouchTargets (metrics (analyzeViewport scrollingPage iPhone8)) = 2"
proof -
  have h: "hasHorizontalScroll (metrics (analyzeViewport scrollingPage iPhone8))"
    by code_simp
  have o: "overflowingElements (metrics (analyzeViewport scrollingPage iPhone8)) = 1"
    "smallTouchTargets (metrics (analyzeViewport scrollingPage iPhone8)) = 2"
    "length (filter (\<lambda>i. type i = TouchTarget) (issues (analyzeViewport scrollingPage iPhone8))) = 1"
    by code_simp+
  show ?thesis
    using h o metrics_agree_with_issues [of scrollingPage iPhone8] by blast
qed

section \<open>The run\<close>

text \<open>
  Claim C9. A run returns a result only if every viewport pass succeeded, and the result
  then holds one analysis for every viewport of the catalog, in catalog order, each the
  analysis of that viewport's pass. If any pass fails, the run returns an error and no
  result, whatever the earlier passes collected; when navigation and closing the page
  succeed, the error is that of the first failing pass.
\<close>

theorem run_is_all_or_nothing:
  "(\<forall>r. analyzeResponsiveDesign np now u vps = Inr r \<longrightarrow>
      (\<exists>page. np = Inr page \<and> map ViewportAnalysis.viewport (viewports r) = vps
         \<and> (\<forall>i<length vps. \<exists>pg. page_pass page i (vps ! i) = Inr pg
               \<and> viewports r ! i = analyzeViewport pg (vps ! i))))
   \<and> (\<forall>page i e. np = Inr page \<and> i < length vps \<and> page_pass page i (vps ! i) = Inl e \<longrightarrow>
        isl (analyzeResponsiveDesign np now u vps))
   \<and> (\<forall>page i e. np = Inr page \<and> page_goto page u = None \<and> page_close page = None
        \<and> i < length vps \<and> page_pass page i (vps ! i) = Inl e
        \<and> (\<forall>j<i. \<not> isl (page_pass page j (vps ! j))) \<longrightarrow>
        analyzeResponsiveDesign np now u vps = Inl e)"
proof -
  have ok: "\<exists>page. np = Inr page \<and> map ViewportAnalysis.viewport (viewports r) = vps
         \<and> (\<forall>i<length vps. \<exists>pg. page_pass page i (vps ! i) = Inr pg
               \<and> viewports r ! i = analyzeViewport pg (vps ! i))"
    if run: "analyzeResponsiveDesign np now u vps = Inr r" for r
  proof -
    from run_result [OF run] obtain page where page: "np = Inr page"
      "analyzeViewports (page_pass page) [] vps = Inr (viewports r)"
      by blast
    from analyzeViewports_Inr [OF page(2)] page(1) show ?thesis
      by auto
  qed
  have fails: "isl (analyzeResponsiveDesign np now u vps)"
    if "np = Inr page" "i < length vps" "page_pass page i (vps ! i) = Inl e" for page i e
  proof (cases "analyzeResponsiveDesign np now u vps")
    case (Inl e')
    then show ?thesis by simp
  next
    case (Inr r)
    from ok [OF Inr] obtain page' where p': "np = Inr page'"
      "\<forall>i<length vps. \<exists>pg. page_pass page' i (vps ! i) = Inr pg
               \<and> viewports r ! i = analyzeViewport pg (vps ! i)"
      by blast
    from p'(1) that(1) have "page' = page"
      by simp
    with p'(2) that(2) obtain pg where "page_pass page i (vps ! i) = Inr pg"
      by blast
    with that(3) show ?thesis
      by simp
  qed
  have first: "analyzeResponsiveDesign np now u vps = Inl e"
    if "np = Inr page" "page_goto page u = None" "page_close page = None"
       "i < length vps" "page_pass page i (vps ! i) = Inl e"
       "\<forall>j<i. \<not> isl (page_pass page j (vps ! j))" for page i e
  proof -
    have "analyzeViewports (page_pass page) [] vps = Inl e"
      using analyzeViewports_first_failure [of i vps "page_pass page" "[]" e] that(4,5,6) by simp
    with that(1,2,3) show ?thesis
      by (simp add: analyzeResponsiveDesign_def Let_def)
  qed
  from ok fails first show ?thesis by blast
qed

theorem run_is_all_or_nothing_witness:
  "analyzeResponsiveDesign (Inr steadyPage) ''2025-01-01T00:00:00.000Z'' ''http://localhost:3000''
     sampleViewports = Inr sampleRun
   \<and> map ViewportAnalysis.viewport (viewports sampleRun) = sampleViewports
   \<and> page_pass flakyPage 2 (sampleViewports ! 2) = Inl (Error ''Execution context was destroyed'')
   \<and> analyzeResponsiveDesign (Inr flakyPage) ''2025-01-01T00:00:00.000Z'' ''http://localhost:3000''
        sampleViewports = Inl (Error ''Execution context was destroyed'')"
proof -
  have len: "(2::nat) < length sampleViewports"
    by (simp add: sampleViewports_def)
  have f: "page_goto flakyPage ''http://localhost:3000'' = None" "page_close flakyPage = None"
    "page_pass flakyPage 2 (sampleViewports ! 2) = Inl (Error ''Execution context was destroyed'')"
    "\<forall>j<2. \<not> isl (page_pass flakyPage j (sampleViewports ! j))"
    by (simp_all add: flakyPage_def)
  note t1 = run_is_all_or_nothing [of "Inr steadyPage" "''2025-01-01T00:00:00.000Z''"
      "''http://localhost:3000''" sampleViewports]
  note t2 = run_is_all_or_nothing [of "Inr flakyPage" "''2025-01-01T00:00:00.000Z''"
      "''http://localhost:3000''" sampleViewports]
  have a: "map ViewportAnalysis.viewport (viewports sampleRun) = sampleViewports"
    using t1 sample_run by blast
  have b: "analyzeResponsiveDesign (Inr flakyPage) ''2025-01-01T00:00:00.000Z''
      ''http://localhost:3000'' sampleViewports = Inl (Error ''Execution context was destroyed'')"
    using t2 len f by blast
  from a b f(3) sample_run show ?thesis by blast
qed

text \<open>
  Claim C2. In the result of every run, \<open>summary.worstViewport\<close> is null exactly when
  every viewport has zero issues; otherwise it is the name of a viewport of the run whose
  issue list is strictly longer than that of every earlier viewport and at least as long
  as that of every later viewport.
\<close>

theorem worst_viewport_first_maximum:
  assumes "analyzeResponsiveDesign np now u vps = Inr r"
  shows "(worstViewport (summary r) = None \<longleftrightarrow> (\<forall>v\<in>set (viewports r). issues v = []))
    \<and> (\<forall>n. worstViewport (summary r) = Some n \<longrightarrow>
         (\<exists>i<length (viewports r). n = name (ViewportAnalysis.viewport (viewports r ! i))
            \<and> (\<forall>j<i. length (issues (viewports r ! j)) < length (issues (viewports r ! i)))
            \<and> (\<forall>j. i < j \<and> j < length (viewports r) \<longrightarrow>
                 length (issues (viewports r ! j)) \<le> length (issues (viewports r ! i)))))"
proof -
  let ?vrs = "viewports r"
  have w: "worstViewport (summary r) = fst (foldl worstStep (None, 0) ?vrs)"
    using run_result [OF assms] by (auto simp: summarize_def Let_def findWorstViewport_def)
  note inv = worstStep_invariant [of ?vrs]
  have none: "worstViewport (summary r) = None \<longleftrightarrow> (\<forall>v\<in>set ?vrs. issues v = [])"
  proof
    assume "worstViewport (summary r) = None"
    with inv w have "\<forall>j<length ?vrs. length (issues (?vrs ! j)) = 0"
      by simp
    then show "\<forall>v\<in>set ?vrs. issues v = []"
      by (auto simp: in_set_conv_nth)
  next
    assume zero: "\<forall>v\<in>set ?vrs. issues v = []"
    show "worstViewport (summary r) = None"
    proof (cases "worstViewport (summary r)")
      case None
      then show ?thesis .
    next
      case (Some n)
      with w have "fst (foldl worstStep (None, 0) ?vrs) = Some n"
        by simp
      with inv obtain i where i: "i < length ?vrs" "0 < length (issues (?vrs ! i))"
        by blast
      from i(1) zero have "issues (?vrs ! i) = []"
        by simp
      with i(2) show ?thesis
        by simp
    qed
  qed
  have some: "\<forall>n. worstViewport (summary r) = Some n \<longrightarrow>
         (\<exists>i<length ?vrs. n = name (ViewportAnalysis.viewport (?vrs ! i))
            \<and> (\<forall>j<i. length (issues (?vrs ! j)) < length (issues (?vrs ! i)))
            \<and> (\<forall>j. i < j \<and> j < length ?vrs \<longrightarrow>
                 length (issues (?vrs ! j)) \<le> length (issues (?vrs ! i))))"
    using inv unfolding w by blast
  from none some show ?thesis by blast
qed

theorem worst_viewport_first_maximum_witness:
  "analyzeResponsiveDesign (Inr steadyPage) ''2025-01-01T00:00:00.000Z'' ''http://localhost:3000''
     sampleViewports = Inr sampleRun
   \<and> worstViewport (summary sampleRun) = Some ''iPhone SE''
   \<and> (\<exists>i<length (viewports sampleRun).
         ''iPhone SE'' = name (ViewportAnalysis.viewport (viewports sampleRun ! i))
         \<and> (\<forall>j<i. length (issues (viewports sampleRun ! j)) < length (issues (viewports sampleRun ! i)))
         \<and> (\<forall>j. i < j \<and> j < length (viewports sampleRun) \<longrightarrow>
               length (issues (viewports sampleRun ! j)) \<le> length (issues (viewports sampleRun ! i))))
   \<and> analyzeResponsiveDesign (Inr quietPage) ''2025-01-01T00:00:00.000Z'' ''http://localhost:3000''
     sampleViewports = Inr quietRun
   \<and> worstViewport (summary quietRun) = None
   \<and> concat (map issues (viewports quietRun)) = []"
proof -
  have w: "worstViewport (summary sampleRun) = Some ''iPhone SE''"
    by code_simp
  have c: "worstViewport (summary quietRun) = None"
    by code_simp
  show ?thesis
    using worst_viewport_first_maximum [OF sample_run] worst_viewport_first_maximum [OF quiet_run]
      sample_run quiet_run w c
    by simp
qed



section \<open>The deduplicated issues of the report\<close>

text \<open>
  Claim C1. For the viewport analyses of any run result, the issue map of the report has
  exactly one entry for every distinct key occurring in the flattened issue sequence (the
  keys of the map are the keys of that sequence in order of first appearance, each once),
  and two issues have the same key exactly when they have the same type and selector.
  The entry of a key takes its type, selector, severity and suggested fix from the first
  occurrence of the key in viewport-then-issue order. Its description is the description
  of that occurrence with every numeric pixel literal (a run of digits directly followed
  by \<open>px\<close>) replaced by the placeholder \<open>Npx\<close> and the rest of the text kept: the
  description of the occurrence has a proper reading as kept text and pixel literals,
  and for every proper reading of it the description of the entry is the same text with
  \<open>Npx\<close> in the place of each literal; no digit directly followed by \<open>px\<close> is left
  in it. The viewports of the entry are the names of the viewports whose issue lists hold
  the key, in order of first appearance and each once.
\<close>

theorem dedup_one_entry_per_key:
  "map fst (buildIssueMap vps) = firstSeen (map issueKey (concat (map issues vps)))
   \<and> distinct (map fst (buildIssueMap vps))
   \<and> (\<forall>i j. issueKey i = issueKey j \<longleftrightarrow> type i = type j \<and> selector i = selector j)
   \<and> (\<forall>k e. (k, e) \<in> set (buildIssueMap vps) \<longrightarrow>
        (\<exists>i. List.find (\<lambda>i. issueKey i = k) (concat (map issues vps)) = Some i
           \<and> entry_type e = type i \<and> entry_selector e = selector i
           \<and> entry_severity e = severity i \<and> entry_suggestedFix e = suggestedFix i
           \<and> entry_description e = normalizePx (description i)
           \<and> (\<exists>t ps. properReading t ps \<and> description i = original t ps
                 \<and> entry_description e = replaced t ps)
           \<and> (\<forall>t ps. properReading t ps \<and> description i = original t ps \<longrightarrow>
                 entry_description e = replaced t ps)
           \<and> \<not> hasPxLiteral (entry_description e)
           \<and> entry_viewports e =
               firstSeen (map (\<lambda>vp. name (ViewportAnalysis.viewport vp))
                 (filter (\<lambda>vp. k \<in> issueKey ` set (issues vp)) vps))))"
proof -
  have keys: "map fst (buildIssueMap vps) = firstSeen (map issueKey (concat (map issues vps)))"
    by (rule buildIssueMap_keys)
  have dist: "distinct (map fst (buildIssueMap vps))"
    by (simp add: keys distinct_firstSeen)
  have key: "\<forall>i j. issueKey i = issueKey j \<longleftrightarrow> type i = type j \<and> selector i = selector j"
    by (simp add: issueKey_eq_iff)
  have ent: "\<exists>i. List.find (\<lambda>i. issueKey i = k) (concat (map issues vps)) = Some i
           \<and> entry_type e = type i \<and> entry_selector e = selector i
           \<and> entry_severity e = severity i \<and> entry_suggestedFix e = suggestedFix i
           \<and> entry_description e = normalizePx (description i)
           \<and> (\<exists>t ps. properReading t ps \<and> description i = original t ps
                 \<and> entry_description e = replaced t ps)
           \<and> (\<forall>t ps. properReading t ps \<and> description i = original t ps \<longrightarrow>
                 entry_description e = replaced t ps)
           \<and> \<not> hasPxLiteral (entry_description e)
           \<and> entry_viewports e =
               firstSeen (map (\<lambda>vp. name (ViewportAnalysis.viewport vp))
                 (filter (\<lambda>vp. k \<in> issueKey ` set (issues vp)) vps))"
    if "(k, e) \<in> set (buildIssueMap vps)" for k e
  proof -
    from buildIssueMap_entry [OF that] obtain i where i:
      "List.find (\<lambda>i. issueKey i = k) (concat (map issues vps)) = Some i"
      "entry_type e = type i" "entry_selector e = selector i"
      "entry_severity e = severity i" "entry_suggestedFix e = suggestedFix i"
      "entry_description e = normalizePx (description i)"
      "entry_viewports e =
          firstSeen (map (\<lambda>vp. name (ViewportAnalysis.viewport vp))
            (filter (\<lambda>vp. k \<in> issueKey ` set (issues vp)) vps))"
      by blast
    have nolit: "\<not> hasPxLiteral (entry_description e)"
      unfolding i(6) by (rule normalizePx_no_literal)
    have all: "\<forall>t ps. properReading t ps \<and> description i = original t ps \<longrightarrow>
                 entry_description e = replaced t ps"
      unfolding i(6) by (auto simp: normalizePx_reading)
    obtain t ps where r: "properReading t ps" "original t ps = description i"
      using reading_exists [of "description i"] by blast
    with all have ex: "\<exists>t ps. properReading t ps \<and> description i = original t ps
                 \<and> entry_description e = replaced t ps"
      by metis
    from i nolit all ex show ?thesis by blast
  qed
  from keys dist key ent show ?thesis by blast
qed

theorem dedup_one_entry_per_key_witness:
  "map fst (buildIssueMap sampleResults) = [''horizontal-overflow|body'', ''touch-target|#more'']
   \<and> (\<exists>e i. (''horizontal-overflow|body'', e) \<in> set (buildIssueMap sampleResults)
         \<and> List.find (\<lambda>i. issueKey i = ''horizontal-overflow|body'')
              (concat (map issues sampleResults)) = Some i
         \<and> entry_severity e = severity i
         \<and> description i = ''Page has horizontal scrollbar (document: 400px, viewport: 320px)''
         \<and> properReading ''Page has horizontal scrollbar (document: ''
              [(''400'', '', viewport: ''), (''320'', '')'')]
         \<and> description i = original ''Page has horizontal scrollbar (document: ''
              [(''400'', '', viewport: ''), (''320'', '')'')]
         \<and> entry_description e = replaced ''Page has horizontal scrollbar (document: ''
              [(''400'', '', viewport: ''), (''320'', '')'')]
         \<and> entry_description e = ''Page has horizontal scrollbar (document: Npx, viewport: Npx)''
         \<and> \<not> hasPxLiteral (entry_description e)
         \<and> entry_viewports e = [''iPhone SE'', ''iPhone 8'', ''iPhone 14''])"
proof -
  let ?e = "\<lparr>entry_type = HorizontalOverflow, entry_selector = ''body'', entry_severity = High,
       entry_description = ''Page has horizontal scrollbar (document: Npx, viewport: Npx)'',
       entry_suggestedFix = Some ''Add overflow-x-hidden to body or fix overflowing children'',
       entry_viewports = [''iPhone SE'', ''iPhone 8'', ''iPhone 14'']\<rparr>"
  let ?t = "''Page has horizontal scrollbar (document: ''"
  let ?ps = "[(''400'', '', viewport: ''), (''320'', '')'')]"
  have mem: "(''horizontal-overflow|body'', ?e) \<in> set (buildIssueMap sampleResults)"
    by (simp add: sample_issueMap)
  have keys: "map fst (buildIssueMap sampleResults) = [''horizontal-overflow|body'', ''touch-target|#more'']"
    by (simp add: sample_issueMap)
  have first: "map_option description
      (List.find (\<lambda>i. issueKey i = ''horizontal-overflow|body'') (concat (map issues sampleResults)))
      = Some ''Page has horizontal scrollbar (document: 400px, viewport: 320px)''"
    by code_simp
  have proper: "properReading ?t ?ps"
    by code_simp
  have orig: "original ?t ?ps = ''Page has horizontal scrollbar (document: 400px, viewport: 320px)''"
    by simp
  from dedup_one_entry_per_key [of sampleResults] mem obtain i where i:
    "List.find (\<lambda>i. issueKey i = ''horizontal-overflow|body'')
              (concat (map issues sampleResults)) = Some i"
    "entry_severity ?e = severity i"
    "\<forall>t ps. properReading t ps \<and> description i = original t ps \<longrightarrow>
                 entry_description ?e = replaced t ps"
    "\<not> hasPxLiteral (entry_description ?e)"
    by blast
  have d: "description i = ''Page has horizontal scrollbar (document: 400px, viewport: 320px)''"
    using first i(1) by simp
  then have d': "description i = original ?t ?ps"
    using orig by simp
  with i(3) proper have r: "entry_description ?e = replaced ?t ?ps"
    by blast
  have "(''horizontal-overflow|body'', ?e) \<in> set (buildIssueMap sampleResults)
         \<and> List.find (\<lambda>i. issueKey i = ''horizontal-overflow|body'')
              (concat (map issues sampleResults)) = Some i
         \<and> entry_severity ?e = severity i
         \<and> description i = ''Page has horizontal scrollbar (document: 400px, viewport: 320px)''
         \<and> properReading ?t ?ps
         \<and> description i = original ?t ?ps
         \<and> entry_description ?e = replaced ?t ?ps
         \<and> entry_description ?e = ''Page has horizontal scrollbar (document: Npx, viewport: Npx)''
         \<and> \<not> hasPxLiteral (entry_description ?e)
         \<and> entry_viewports ?e = [''iPhone SE'', ''iPhone 8'', ''iPhone 14'']"
    using mem i(1,2,4) d proper d' r by simp
  then have "\<exists>e i. (''horizontal-overflow|body'', e) \<in> set (buildIssueMap sampleResults)
         \<and> List.find (\<lambda>i. issueKey i = ''horizontal-overflow|body'')
              (concat (map issues sampleResults)) = Some i
         \<and> entry_severity e = severity i
         \<and> description i = ''Page has horizontal scrollbar (document: 400px, viewport: 320px)''
         \<and> properReading ?t ?ps
         \<and> description i = original ?t ?ps
         \<and> entry_description e = replaced ?t ?ps
         \<and> entry_description e = ''Page has horizontal scrollbar (document: Npx, viewport: Npx)''
         \<and> \<not> hasPxLiteral (entry_description e)
         \<and> entry_viewports e = [''iPhone SE'', ''iPhone 8'', ''iPhone 14'']"
    by (intro exI [of _ ?e] exI [of _ i])
  with keys show ?thesis by blast
qed

text \<open>
  Claim C8. For every entry of the issue map of the report, the list of affected viewports
  has no duplicates, holds only names of viewports of the run, and lists the names in the
  order in which they are first seen among the viewports whose issue lists hold the key;
  hence the union of the affected viewports of all entries is a subset of the viewport
  names of the run.
\<close>

theorem affected_viewports_invariant:
  "(\<forall>k e. (k, e) \<in> set (buildIssueMap vps) \<longrightarrow>
      distinct (entry_viewports e)
      \<and> set (entry_viewports e) \<subseteq> set (map (\<lambda>vp. name (ViewportAnalysis.viewport vp)) vps)
      \<and> sorted_wrt
          (\<lambda>a b. firstIndex (map (\<lambda>vp. name (ViewportAnalysis.viewport vp))
                     (filter (\<lambda>vp. k \<in> issueKey ` set (issues vp)) vps)) a
                 < firstIndex (map (\<lambda>vp. name (ViewportAnalysis.viewport vp))
                     (filter (\<lambda>vp. k \<in> issueKey ` set (issues vp)) vps)) b)
          (entry_viewports e))
   \<and> (\<Union>p\<in>set (buildIssueMap vps). set (entry_viewports (snd p)))
        \<subseteq> set (map (\<lambda>vp. name (ViewportAnalysis.viewport vp)) vps)"
proof -
  have ent: "distinct (entry_viewports e)
      \<and> set (entry_viewports e) \<subseteq> set (map (\<lambda>vp. name (ViewportAnalysis.viewport vp)) vps)
      \<and> sorted_wrt
          (\<lambda>a b. firstIndex (map (\<lambda>vp. name (ViewportAnalysis.viewport vp))
                     (filter (\<lambda>vp. k \<in> issueKey ` set (issues vp)) vps)) a
                 < firstIndex (map (\<lambda>vp. name (ViewportAnalysis.viewport vp))
                     (filter (\<lambda>vp. k \<in> issueKey ` set (issues vp)) vps)) b)
          (entry_viewports e)"
    if "(k, e) \<in> set (buildIssueMap vps)" for k e
  proof -
    let ?ys = "map (\<lambda>vp. name (ViewportAnalysis.viewport vp))
            (filter (\<lambda>vp. k \<in> issueKey ` set (issues vp)) vps)"
    from buildIssueMap_entry [OF that] have v: "entry_viewports e = firstSeen ?ys"
      by blast
    have "set ?ys \<subseteq> set (map (\<lambda>vp. name (ViewportAnalysis.viewport vp)) vps)"
      by auto
    then show ?thesis
      unfolding v by (simp only: distinct_firstSeen set_firstSeen sorted_firstSeen simp_thms)
  qed
  have "(\<Union>p\<in>set (buildIssueMap vps). set (entry_viewports (snd p)))
        \<subseteq> set (map (\<lambda>vp. name (ViewportAnalysis.viewport vp)) vps)"
  proof
    fix x assume "x \<in> (\<Union>p\<in>set (buildIssueMap vps). set (entry_viewports (snd p)))"
    then obtain k e where "(k, e) \<in> set (buildIssueMap vps)" "x \<in> set (entry_viewports e)"
      by auto
    with ent [of k e] show "x \<in> set (map (\<lambda>vp. name (ViewportAnalysis.viewport vp)) vps)"
      by blast
  qed
  with ent show ?thesis by blast
qed

theorem affected_viewports_invariant_witness:
  "\<exists>e. (''touch-target|#more'', e) \<in> set (buildIssueMap sampleResults)
     \<and> entry_viewports e = [''iPhone SE'', ''iPhone 8'', ''iPhone 14'', ''lg (Tailwind)'']
     \<and> distinct (entry_viewports e)
     \<and> set (entry_viewports e) \<subseteq> set (map (\<lambda>vp. name (ViewportAnalysis.viewport vp)) sampleResults)"
proof -
  let ?e = "\<lparr>entry_type = TouchTarget, entry_selector = ''#more'', entry_severity = Medium,
       entry_description =
         ''Interactive element too small for touch (20xNpx, min 44xNpx recommended)'',
       entry_suggestedFix = Some ''min-w-[44px] min-h-[44px] or p-3'',
       entry_viewports = [''iPhone SE'', ''iPhone 8'', ''iPhone 14'', ''lg (Tailwind)'']\<rparr>"
  have mem: "(''touch-target|#more'', ?e) \<in> set (buildIssueMap sampleResults)"
    by (simp add: sample_issueMap)
  from affected_viewports_invariant [of sampleResults] mem have
    "distinct (entry_viewports ?e)
     \<and> set (entry_viewports ?e) \<subseteq> set (map (\<lambda>vp. name (ViewportAnalysis.viewport vp)) sampleResults)"
    by blast
  with mem show ?thesis
    by (intro exI [of _ ?e]) simp
qed

end
